theory Spec2Isabelle
  imports Complex_Main "HOL-Library.AList" "HOL-Library.Code_Target_Nat"
begin

section \<open>JavaScript strings\<close>

text \<open>
  A JavaScript string is modelled as a \<^typ>\<open>string\<close>; a \<^typ>\<open>char\<close> stands for a
  UTF-16 code unit in the range U+0000 .. U+00FF, so that \<open>CHR 0xA0\<close> is the
  no-break space. The functions of this section are the members of
  \<open>String.prototype\<close> and the regular-expression replacements that
  \<open>src/App.jsx\<close> calls.
\<close>

definition is_space :: "char \<Rightarrow> bool" where
  \<comment> \<open>the white space and line terminators that \<open>trim\<close> removes, below U+0100\<close>
  "is_space c \<longleftrightarrow> c \<in> {CHR 0x09, CHR 0x0A, CHR 0x0B, CHR 0x0C, CHR 0x0D, CHR 0x20, CHR 0xA0}"

definition trim :: "string \<Rightarrow> string" where
  "trim s = rev (dropWhile is_space (rev (dropWhile is_space s)))"

fun split_loop :: "char \<Rightarrow> string \<Rightarrow> string \<Rightarrow> string list" where
  "split_loop sep cur [] = [cur]"
| "split_loop sep cur (c # cs) =
     (if c = sep then cur # split_loop sep [] cs else split_loop sep (cur @ [c]) cs)"

definition split :: "char \<Rightarrow> string \<Rightarrow> string list" where
  \<comment> \<open>\<open>s.split(sep)\<close> for a one-character separator; the empty string gives \<open>['']\<close>\<close>
  "split sep s = split_loop sep [] s"

fun join :: "string \<Rightarrow> string list \<Rightarrow> string" where
  "join sep [] = []"
| "join sep [x] = x"
| "join sep (x # y # ys) = x @ sep @ join sep (y # ys)"

definition strip_outer_quotes :: "string \<Rightarrow> string" where
  \<comment> \<open>\<open>s.replace(/^"|"$/g, '')\<close>: one quote at the start and one at the end\<close>
  "strip_outer_quotes s =
     (let s1 = (case s of [] \<Rightarrow> [] | c # r \<Rightarrow> if c = CHR 0x22 then r else s)
      in if s1 \<noteq> [] \<and> last s1 = CHR 0x22 then butlast s1 else s1)"

fun unescape_quotes :: "string \<Rightarrow> string" where
  \<comment> \<open>\<open>s.replace(/""/g, '"')\<close>: the matches are taken from the left and do not overlap\<close>
  "unescape_quotes (c # d # r) =
     (if c = CHR 0x22 \<and> d = CHR 0x22 then CHR 0x22 # unescape_quotes r
      else c # unescape_quotes (d # r))"
| "unescape_quotes s = s"

fun double_quotes :: "string \<Rightarrow> string" where
  \<comment> \<open>\<open>s.replace(/"/g, '""')\<close>\<close>
  "double_quotes [] = []"
| "double_quotes (c # r) =
     (if c = CHR 0x22 then CHR 0x22 # CHR 0x22 # double_quotes r else c # double_quotes r)"

definition toLowerCase_char :: "char \<Rightarrow> char" where
  "toLowerCase_char c =
     (let n = of_char c :: nat
      in if (65 \<le> n \<and> n \<le> 90) \<or> (192 \<le> n \<and> n \<le> 222 \<and> n \<noteq> 215)
         then char_of (n + 32) else c)"

definition toLowerCase :: "string \<Rightarrow> string" where
  "toLowerCase s = map toLowerCase_char s"

definition toUpperCase_char :: "char \<Rightarrow> string" where
  \<comment> \<open>the upper-case form of U+00DF is \<open>SS\<close>; those of U+00B5 and U+00FF lie outside
      the modelled range, and these two are left as they are\<close>
  "toUpperCase_char c =
     (let n = of_char c :: nat
      in if (97 \<le> n \<and> n \<le> 122) \<or> (224 \<le> n \<and> n \<le> 254 \<and> n \<noteq> 247)
         then [char_of (n - 32)]
         else if n = 223 then ''SS'' else [c])"

definition toUpperCase :: "string \<Rightarrow> string" where
  "toUpperCase s = concat (map toUpperCase_char s)"

fun digits_of :: "nat \<Rightarrow> string" where
  \<comment> \<open>\<open>String(n)\<close> for a non-negative integer below \<open>10^21\<close>\<close>
  "digits_of n =
     (if n < 10 then [char_of (48 + n)] else digits_of (n div 10) @ [char_of (48 + n mod 10)])"

declare digits_of.simps [simp del]

section \<open>Objects and their key order\<close>

text \<open>
  An object is the list of its own properties in the order of their creation.
  Defining a property, as an object literal and a spread do, is
  \<^const>\<open>AList.update\<close>: it replaces the value of an existing key where it stands
  and appends a new key at the end. A key is read with \<^const>\<open>map_of\<close>.
  \<open>Object.keys\<close> lists the keys that are array indices (canonical decimal
  numerals below \<open>2^32 - 1\<close>) in ascending numeric order, and after them the
  other keys in creation order.
\<close>

type_synonym 'v obj = "(string \<times> 'v) list"

definition is_digit :: "char \<Rightarrow> bool" where
  "is_digit c \<longleftrightarrow> 48 \<le> (of_char c :: int) \<and> (of_char c :: int) \<le> 57"

definition index_of_digits :: "string \<Rightarrow> int" where
  \<comment> \<open>the number that a decimal numeral denotes\<close>
  "index_of_digits s = foldl (\<lambda>n c. 10 * n + ((of_char c :: int) - 48)) 0 s"

definition is_array_index :: "string \<Rightarrow> bool" where
  "is_array_index s \<longleftrightarrow>
     s \<noteq> [] \<and> list_all is_digit s \<and> (hd s = CHR ''0'' \<longrightarrow> length s = 1) \<and>
     index_of_digits s < 4294967295"

fun first_keys :: "'v obj \<Rightarrow> string list" where
  \<comment> \<open>the keys in creation order, each once\<close>
  "first_keys [] = []"
| "first_keys (p # ps) = fst p # filter (\<lambda>k. k \<noteq> fst p) (first_keys ps)"

definition key_order :: "string list \<Rightarrow> string list" where
  "key_order ks =
     sort_key index_of_digits (filter is_array_index ks) @ filter (\<lambda>k. \<not> is_array_index k) ks"

definition own_keys :: "'v obj \<Rightarrow> string list" where
  \<comment> \<open>\<open>Object.keys(o)\<close>\<close>
  "own_keys ob = key_order (first_keys ob)"

definition entries :: "'v obj \<Rightarrow> (string \<times> 'v) list" where
  \<comment> \<open>\<open>Object.entries(o)\<close>: what an enumeration of the object observes\<close>
  "entries ob = map (\<lambda>k. (k, the (map_of ob k))) (own_keys ob)"

definition assign :: "string \<Rightarrow> 'v \<Rightarrow> 'v obj \<Rightarrow> 'v obj" where
  \<comment> \<open>the assignment \<open>o[k] = v\<close> of a string \<open>v\<close> to an object made by \<open>{}\<close>: it defines
      the property, except for the key \<open>__proto__\<close> that the object does not own, where
      it calls the setter of \<open>Object.prototype\<close>, which ignores a string\<close>
  "assign k v ob =
     (if k = ''__proto__'' \<and> map_of ob k = None then ob else AList.update k v ob)"

section \<open>CSV parsing\<close>

definition clean_cell :: "string \<Rightarrow> string" where
  \<comment> \<open>\<open>current.trim().replace(/^"|"$/g, '').replace(/""/g, '"')\<close>\<close>
  "clean_cell current = unescape_quotes (strip_outer_quotes (trim current))"

fun parseLine_loop :: "string \<Rightarrow> string list \<Rightarrow> string \<Rightarrow> bool \<Rightarrow> string list" where
  \<comment> \<open>the \<open>for\<close> loop of \<open>parseLine\<close> over the remaining characters, with the
      variables \<open>values\<close>, \<open>current\<close> and \<open>inQuote\<close>, and the final push\<close>
  "parseLine_loop [] vals current inQuote = vals @ [clean_cell current]"
| "parseLine_loop (c # cs) vals current inQuote =
     (if c = CHR 0x22 then parseLine_loop cs vals current (\<not> inQuote)
      else if c = CHR '','' \<and> \<not> inQuote then parseLine_loop cs (vals @ [clean_cell current]) [] inQuote
      else parseLine_loop cs vals (current @ [c]) inQuote)"

definition parseLine :: "string \<Rightarrow> string list" where
  "parseLine line = parseLine_loop line [] [] False"

definition cleanKey :: "string \<Rightarrow> string" where
  \<comment> \<open>\<open>h.replace(/^"|"$/g, '').trim()\<close>\<close>
  "cleanKey h = trim (strip_outer_quotes h)"

definition cell_or_empty :: "string list \<Rightarrow> nat \<Rightarrow> string" where
  \<comment> \<open>\<open>values[i] || ''\<close>: a missing cell reads as \<open>undefined\<close>\<close>
  "cell_or_empty vals i = (if i < length vals then vals ! i else [])"

definition make_row :: "string list \<Rightarrow> string list \<Rightarrow> string obj" where
  \<comment> \<open>the \<open>headers.forEach\<close> that fills \<open>obj\<close>\<close>
  "make_row hdrs vals =
     fold (\<lambda>(h, i). assign (cleanKey h) (cell_or_empty vals i))
          (zip hdrs [0 ..< length hdrs]) []"

definition parseCSV :: "string \<Rightarrow> string obj list" where
  "parseCSV text =
     (let lines = filter (\<lambda>l. trim l \<noteq> []) (split (CHR 0x0A) text)
      in case lines of
           [] \<Rightarrow> []
         | first # rest \<Rightarrow>
             (let hdrs = parseLine first
              in map (\<lambda>line. make_row hdrs (parseLine line)) rest))"

section \<open>JSON values and the operations of the language on them\<close>

text \<open>
  The values that \<open>JSON.parse\<close> returns, and \<open>undefined\<close>. Reading a member gives
  the own property or \<open>undefined\<close>; on \<open>null\<close> and \<open>undefined\<close> it throws a
  \<open>TypeError\<close>. None of the member names that the program reads by a fixed name
  is inherited from a prototype, and the members it reads by a computed name are
  own keys, except \<open>definitions[refName]\<close>: an inherited member found there is
  a function or \<open>Object.prototype\<close>, which has neither \<open>properties\<close> nor
  \<open>required\<close>, and the program then goes on as it does after \<open>undefined\<close>.
  A \<open>TypeError\<close> is kept with what raised it; its text is the engine's own
  and is given by the engine.
\<close>

datatype json =
    JUndefined
  | JNull
  | JBool bool
  | JNum rat
  | JStr string
  | JArr "json list"
  | JObj "(string \<times> json) list"

datatype type_error =
    Read_member string string
      \<comment> \<open>a member, named second, read on \<open>null\<close> or \<open>undefined\<close>, named first\<close>
  | Not_a_function string
      \<comment> \<open>a call of the named member, which is not a function\<close>
  | To_object string
      \<comment> \<open>the named built-in function asked to take \<open>null\<close> or \<open>undefined\<close> as an object\<close>
  | No_primitive
      \<comment> \<open>an object with no string form: its \<open>toString\<close> is not a function\<close>
  | Body_read string
      \<comment> \<open>the named method of a \<open>Response\<close> called on a body that has been read\<close>

datatype js_error = SyntaxError string | Error string | TypeError type_error

definition bind :: "js_error + 'a \<Rightarrow> ('a \<Rightarrow> js_error + 'b) \<Rightarrow> js_error + 'b" where
  \<comment> \<open>sequencing: an exception of the first step is the exception of the whole\<close>
  "bind m f = (case m of Inl e \<Rightarrow> Inl e | Inr x \<Rightarrow> f x)"

fun try_map :: "('a \<Rightarrow> js_error + 'b) \<Rightarrow> 'a list \<Rightarrow> js_error + 'b list" where
  \<comment> \<open>\<open>forEach\<close> and \<open>map\<close> with a callback that may throw\<close>
  "try_map f [] = Inr []"
| "try_map f (x # xs) = bind (f x) (\<lambda>y. bind (try_map f xs) (\<lambda>ys. Inr (y # ys)))"

fun truthy :: "json \<Rightarrow> bool" where
  "truthy JUndefined = False"
| "truthy JNull = False"
| "truthy (JBool b) = b"
| "truthy (JNum n) = (n \<noteq> 0)"
| "truthy (JStr s) = (s \<noteq> [])"
| "truthy (JArr xs) = True"
| "truthy (JObj ps) = True"

definition or_else :: "json \<Rightarrow> json \<Rightarrow> json" where
  \<comment> \<open>\<open>a || b\<close> where \<open>b\<close> has no effect\<close>
  "or_else a b = (if truthy a then a else b)"

definition element_at :: "'a list \<Rightarrow> string \<Rightarrow> 'a option" where
  "element_at xs k =
     (if is_array_index k \<and> index_of_digits k < int (length xs)
      then Some (xs ! nat (index_of_digits k)) else None)"

fun get :: "json \<Rightarrow> string \<Rightarrow> js_error + json" where
  \<comment> \<open>\<open>v[k]\<close>, also written \<open>v.k\<close>\<close>
  "get JUndefined k = Inl (TypeError (Read_member ''undefined'' k))"
| "get JNull k = Inl (TypeError (Read_member ''null'' k))"
| "get (JObj ps) k = Inr (case map_of ps k of None \<Rightarrow> JUndefined | Some v \<Rightarrow> v)"
| "get (JArr xs) k =
     Inr (case element_at xs k of
            Some v \<Rightarrow> v
          | None \<Rightarrow> if k = ''length'' then JNum (of_nat (length xs)) else JUndefined)"
| "get (JStr s) k =
     Inr (case element_at s k of
            Some c \<Rightarrow> JStr [c]
          | None \<Rightarrow> if k = ''length'' then JNum (of_nat (length s)) else JUndefined)"
| "get (JBool b) k = Inr JUndefined"
| "get (JNum n) k = Inr JUndefined"

definition get_opt :: "json \<Rightarrow> string \<Rightarrow> js_error + json" where
  \<comment> \<open>\<open>v?.k\<close> and \<open>v?.[k]\<close>\<close>
  "get_opt v k = (if v = JUndefined \<or> v = JNull then Inr JUndefined else get v k)"

definition Object_keys :: "json \<Rightarrow> js_error + string list" where
  "Object_keys v =
     (case v of
        JUndefined \<Rightarrow> Inl (TypeError (To_object ''Object.keys''))
      | JNull \<Rightarrow> Inl (TypeError (To_object ''Object.keys''))
      | JObj ps \<Rightarrow> Inr (own_keys ps)
      | JArr xs \<Rightarrow> Inr (map digits_of [0 ..< length xs])
      | JStr s \<Rightarrow> Inr (map digits_of [0 ..< length s])
      | _ \<Rightarrow> Inr [])"

fun starts_with :: "string \<Rightarrow> string \<Rightarrow> bool" where
  "starts_with s [] = True"
| "starts_with [] (c # p) = False"
| "starts_with (d # s) (c # p) = (d = c \<and> starts_with s p)"

fun includes_string :: "string \<Rightarrow> string \<Rightarrow> bool" where
  \<comment> \<open>\<open>String.prototype.includes\<close>\<close>
  "includes_string [] p = (p = [])"
| "includes_string (d # s) p = (starts_with (d # s) p \<or> includes_string s p)"

definition js_includes :: "json \<Rightarrow> string \<Rightarrow> string \<Rightarrow> js_error + bool" where
  \<comment> \<open>\<open>v.includes(key)\<close> for a truthy \<open>v\<close> and a string \<open>key\<close>; the second argument
      is the name of \<open>v\<close> in the source, for the exception\<close>
  "js_includes v what key =
     (case v of
        JArr xs \<Rightarrow> Inr (JStr key \<in> set xs)
      | JStr s \<Rightarrow> Inr (includes_string s key)
      | _ \<Rightarrow> Inl (TypeError (Not_a_function (what @ ''.includes''))))"

section \<open>Flattening a request schema\<close>

record body_field =
  name :: string
  type :: json
  required :: bool
  description :: json

definition ref_name :: "json \<Rightarrow> js_error + string" where
  \<comment> \<open>\<open>schema.$ref.split('/').pop()\<close> for a truthy \<open>$ref\<close>\<close>
  "ref_name r =
     (case r of
        JStr s \<Rightarrow> Inr (last (split (CHR ''/'') s))
      | _ \<Rightarrow> Inl (TypeError (Not_a_function ''schema.$ref.split'')))"

definition field_of :: "json \<Rightarrow> json \<Rightarrow> string \<Rightarrow> js_error + body_field" where
  \<comment> \<open>the callback of \<open>Object.keys(properties).map\<close>\<close>
  "field_of properties requiredFields key =
     bind (get properties key) (\<lambda>p.
     bind (get p ''type'') (\<lambda>t.
     bind (js_includes requiredFields ''requiredFields'' key) (\<lambda>req.
     bind (get p ''description'') (\<lambda>d.
     Inr \<lparr>name = key, type = or_else t (JStr ''string''), required = req,
          description = or_else d (JStr [])\<rparr>))))"

definition extractFieldsFromSchema :: "json \<Rightarrow> json \<Rightarrow> js_error + body_field list" where
  "extractFieldsFromSchema schema definitions =
     (if \<not> truthy schema then Inr []
      else
        bind (get schema ''$ref'') (\<lambda>r.
        bind
          (if truthy r then
             bind (ref_name r) (\<lambda>refName.
             bind (if truthy definitions then get definitions refName else Inr definitions) (\<lambda>d.
             if truthy d then
               bind (get d ''properties'') (\<lambda>ps.
               bind (get d ''required'') (\<lambda>rs.
               Inr (or_else ps (JObj []), or_else rs (JArr []))))
             else Inr (JObj [], JArr [])))
           else
             bind (get schema ''properties'') (\<lambda>ps.
             bind (get schema ''required'') (\<lambda>rs.
             Inr (or_else ps (JObj []), or_else rs (JArr [])))))
          (\<lambda>(properties, requiredFields).
             bind (Object_keys properties) (try_map (field_of properties requiredFields)))))"

section \<open>The endpoint catalog\<close>

record endpoint =
  id' :: string
  path :: string
  method' :: string
  summary :: json
  parameters :: json
  requestBody :: json
  definitions :: json

record parsed_spec =
  info :: json
  endpoints :: "endpoint list"

definition verbs :: "string list" where
  "verbs = [''get'', ''post'', ''put'', ''delete'', ''patch'']"

definition make_endpoint :: "json \<Rightarrow> string \<Rightarrow> string \<Rightarrow> json \<Rightarrow> js_error + endpoint" where
  \<comment> \<open>the object literal that \<open>handleSpecParse\<close> pushes, its members read in order\<close>
  "make_endpoint js p m details =
     bind (get details ''summary'') (\<lambda>s.
     bind (get details ''operationId'') (\<lambda>oid.
     bind (get details ''parameters'') (\<lambda>ps.
     bind (get details ''requestBody'') (\<lambda>rb.
     bind (get js ''definitions'') (\<lambda>defs.
     bind (if truthy defs then Inr defs
           else bind (get js ''components'') (\<lambda>c. get_opt c ''schemas'')) (\<lambda>ds.
     Inr \<lparr>id' = m @ ''-'' @ p, path = p, method' = m,
          summary = or_else (or_else s oid) (JStr p),
          parameters = or_else ps (JArr []),
          requestBody = rb,
          definitions = ds\<rparr>))))))"

definition path_endpoints :: "json \<Rightarrow> json \<Rightarrow> string \<Rightarrow> js_error + endpoint list" where
  \<comment> \<open>the inner \<open>forEach\<close>, over the method keys of one path\<close>
  "path_endpoints js paths p =
     bind (get paths p) (\<lambda>item.
     bind (Object_keys item) (\<lambda>ms.
     bind (try_map (\<lambda>m. if toLowerCase m \<in> set verbs
                          then bind (get item m) (\<lambda>details.
                               bind (make_endpoint js p m details) (\<lambda>e. Inr [e]))
                          else Inr []) ms) (\<lambda>ess.
     Inr (concat ess))))"

definition build_endpoints :: "json \<Rightarrow> js_error + endpoint list" where
  \<comment> \<open>the body of the \<open>try\<close> of \<open>handleSpecParse\<close> after \<open>JSON.parse\<close>\<close>
  "build_endpoints js =
     bind (get js ''paths'') (\<lambda>paths.
     if \<not> truthy paths
     then Inl (Error (''Invalid OpenAPI/Swagger Spec: Missing '' @ [CHR 0x27] @ ''paths'' @ [CHR 0x27]))
     else
       bind (Object_keys paths) (\<lambda>ps.
       bind (try_map (path_endpoints js paths) ps) (\<lambda>ess.
       Inr (concat ess))))"

section \<open>The state of the application\<close>

datatype cell = CNum nat | CStr string

record header = key :: string  val :: string

record config =
  baseUrl :: string
  token :: string
  headers :: "header list"

record app_state =
  activeTab :: string
  specInput :: string
  parsedSpec :: "parsed_spec option"
  error :: string
  config :: config
  selectedEndpoint :: "endpoint option"
  batchData :: "string obj list"
  batchResults :: "cell obj list"
  batchProgress :: int
  batchRunning :: bool

text \<open>
  The engine's \<open>JSON.parse\<close>, \<open>JSON.stringify\<close>, conversion of a number to a
  string and texts of its \<open>TypeError\<close>s are parameters of the model.
  \<open>JSON.parse\<close> returns the message of its \<open>SyntaxError\<close> on the left.
\<close>

record engine =
  JSON_parse :: "string \<Rightarrow> string + json"
  JSON_stringify :: "json \<Rightarrow> string"
  Number_toString :: "rat \<Rightarrow> string"
  TypeError_message :: "type_error \<Rightarrow> string"

fun message :: "engine \<Rightarrow> js_error \<Rightarrow> string" where
  \<comment> \<open>\<open>e.message\<close>\<close>
  "message eng (SyntaxError m) = m"
| "message eng (Error m) = m"
| "message eng (TypeError t) = TypeError_message eng t"

definition handleSpecParse :: "engine \<Rightarrow> app_state \<Rightarrow> app_state" where
  "handleSpecParse eng st =
     (case bind (case JSON_parse eng (specInput st) of
                   Inl m \<Rightarrow> Inl (SyntaxError m) | Inr js \<Rightarrow> Inr js) (\<lambda>js.
           bind (build_endpoints js) (\<lambda>es.
           bind (get js ''info'') (\<lambda>i. Inr \<lparr>info = i, endpoints = es\<rparr>))) of
        Inr spec \<Rightarrow> st\<lparr>parsedSpec := Some spec, error := [], activeTab := ''manual''\<rparr>
      | Inl e \<Rightarrow> st\<lparr>error := message eng e\<rparr>)"

section \<open>Executing one request\<close>

text \<open>
  \<open>executeRequest\<close> first builds the URL and the \<open>options\<close> of the call. The
  response is given by the environment, whatever the URL; the model follows the
  URL through the replacement of the path parameters and lists the query
  parameters that are appended, and leaves out the encoding of the query
  string. Both loops over \<open>endpoint.parameters\<close> stand before the \<open>try\<close>: an
  exception of theirs is an exception of \<open>executeRequest\<close>.
\<close>

text \<open>
  The conversion of a JSON value to a string, as a template literal and a
  computed member name do it. An array joins the strings of its elements, with
  the empty string for \<open>null\<close>. An object is \<open>[object Object]\<close>, unless it owns a
  member \<open>toString\<close>: that member is no function, \<open>valueOf\<close> gives no primitive
  value, and the conversion throws.
\<close>

fun to_string :: "engine \<Rightarrow> json \<Rightarrow> js_error + string"
  and to_strings :: "engine \<Rightarrow> json list \<Rightarrow> js_error + string list" where
  "to_string eng JUndefined = Inr ''undefined''"
| "to_string eng JNull = Inr ''null''"
| "to_string eng (JBool b) = Inr (if b then ''true'' else ''false'')"
| "to_string eng (JNum n) = Inr (Number_toString eng n)"
| "to_string eng (JStr s) = Inr s"
| "to_string eng (JArr xs) = bind (to_strings eng xs) (\<lambda>ss. Inr (join '','' ss))"
| "to_string eng (JObj ps) =
     (if ''toString'' \<in> fst ` set ps then Inl (TypeError No_primitive)
      else Inr ''[object Object]'')"
| "to_strings eng [] = Inr []"
| "to_strings eng (x # xs) =
     bind (if x = JUndefined \<or> x = JNull then Inr [] else to_string eng x) (\<lambda>s.
     bind (to_strings eng xs) (\<lambda>ss. Inr (s # ss)))"

text \<open>
  The values of a request are a plain object, made by \<open>{}\<close> or by an object
  literal: what it does not own it inherits from \<open>Object.prototype\<close>. So
  \<open>data[name]\<close> is the string that \<open>data\<close> owns under \<open>name\<close>, or a function of
  \<open>Object.prototype\<close>, or, for \<open>__proto__\<close>, \<open>Object.prototype\<close> itself, or
  \<open>undefined\<close>.
\<close>

datatype data_value = Own string | Inherited_function string | Object_prototype | Missing

definition object_prototype_functions :: "string list" where
  "object_prototype_functions =
     [''constructor'', ''__defineGetter__'', ''__defineSetter__'', ''hasOwnProperty'',
      ''__lookupGetter__'', ''__lookupSetter__'', ''isPrototypeOf'', ''propertyIsEnumerable'',
      ''toString'', ''valueOf'', ''toLocaleString'']"

definition data_at :: "string obj \<Rightarrow> string \<Rightarrow> data_value" where
  \<comment> \<open>\<open>data[name]\<close>\<close>
  "data_at input nm =
     (case map_of input nm of
        Some v \<Rightarrow> Own v
      | None \<Rightarrow>
          if nm \<in> set object_prototype_functions then Inherited_function nm
          else if nm = ''__proto__'' then Object_prototype
          else Missing)"

definition truthy_value :: "data_value \<Rightarrow> bool" where
  "truthy_value v = (case v of Own s \<Rightarrow> s \<noteq> [] | Missing \<Rightarrow> False | _ \<Rightarrow> True)"

definition strip_final_slash :: "string \<Rightarrow> string" where
  \<comment> \<open>\<open>s.replace(/\/$/, '')\<close>\<close>
  "strip_final_slash s = (if s \<noteq> [] \<and> last s = CHR ''/'' then butlast s else s)"

fun split_at_first :: "string \<Rightarrow> string \<Rightarrow> (string \<times> string) option" where
  \<comment> \<open>the text before and the text after the first occurrence of a pattern\<close>
  "split_at_first pat [] = (if pat = [] then Some ([], []) else None)"
| "split_at_first pat (c # s) =
     (if starts_with (c # s) pat then Some ([], drop (length pat) (c # s))
      else map_option (\<lambda>(b, a). (c # b, a)) (split_at_first pat s))"

fun substitution :: "string \<Rightarrow> string \<Rightarrow> string \<Rightarrow> string \<Rightarrow> string" where
  \<comment> \<open>the replacement text for a match without capture groups: \<open>$$\<close> is a dollar
      sign, \<open>$&\<close> the matched text, \<open>$`\<close> the text before it and \<open>$'\<close> the text
      after it\<close>
  "substitution matched front rest (c # d # r) =
     (if c = CHR ''$'' \<and> d = CHR ''$'' then CHR ''$'' # substitution matched front rest r
      else if c = CHR ''$'' \<and> d = CHR ''&'' then matched @ substitution matched front rest r
      else if c = CHR ''$'' \<and> d = CHR 0x60 then front @ substitution matched front rest r
      else if c = CHR ''$'' \<and> d = CHR 0x27 then rest @ substitution matched front rest r
      else c # substitution matched front rest (d # r))"
| "substitution matched front rest r = r"

definition call_inherited :: "string \<Rightarrow> string \<Rightarrow> js_error + string" where
  \<comment> \<open>the string of what the named function of \<open>Object.prototype\<close> returns when
      \<open>replace\<close> calls it: \<open>this\<close> is \<open>undefined\<close> and the first argument is the
      matched text. \<open>Object\<close> wraps the matched text, \<open>isPrototypeOf\<close> returns
      \<open>false\<close> for a string, \<open>toString\<close> names \<open>undefined\<close>; the others take
      \<open>this\<close> as an object and throw\<close>
  "call_inherited f matched =
     (if f = ''constructor'' then Inr matched
      else if f = ''isPrototypeOf'' then Inr ''false''
      else if f = ''toString'' then Inr ''[object Undefined]''
      else Inl (TypeError (To_object (''Object.prototype.'' @ f))))"

definition replace :: "string \<Rightarrow> string \<Rightarrow> data_value \<Rightarrow> js_error + string" where
  \<comment> \<open>\<open>url.replace(pat, v || '')\<close> for a string \<open>pat\<close>: the first occurrence is
      replaced; a function is called only when the pattern occurs\<close>
  "replace url pat v =
     (case split_at_first pat url of
        None \<Rightarrow> Inr url
      | Some (front, rest) \<Rightarrow>
          (case v of
             Inherited_function f \<Rightarrow> bind (call_inherited f pat) (\<lambda>r. Inr (front @ r @ rest))
           | Own s \<Rightarrow> Inr (front @ substitution pat front rest s @ rest)
           | Object_prototype \<Rightarrow>
               Inr (front @ substitution pat front rest ''[object Object]'' @ rest)
           | Missing \<Rightarrow> Inr (front @ rest)))"

fun replace_path_parameters ::
  "engine \<Rightarrow> string obj \<Rightarrow> json list \<Rightarrow> string \<Rightarrow> js_error + string" where
  \<comment> \<open>the callback of the first \<open>forEach\<close>, for each parameter in turn\<close>
  "replace_path_parameters eng input [] url = Inr url"
| "replace_path_parameters eng input (param # ps) url =
     bind (get param ''in'') (\<lambda>loc.
     if loc = JStr ''path''
     then bind (get param ''name'') (\<lambda>n.
          bind (to_string eng n) (\<lambda>nm.
          bind (replace url (''{'' @ nm @ ''}'') (data_at input nm)) (\<lambda>url'.
          replace_path_parameters eng input ps url')))
     else replace_path_parameters eng input ps url)"

fun append_query_parameters ::
  "engine \<Rightarrow> string obj \<Rightarrow> json list \<Rightarrow> js_error + (string \<times> data_value) list" where
  \<comment> \<open>the callback of the second \<open>forEach\<close>; the result lists what is appended to
      \<open>queryParams\<close>\<close>
  "append_query_parameters eng input [] = Inr []"
| "append_query_parameters eng input (param # ps) =
     bind (get param ''in'') (\<lambda>loc.
     bind (if loc = JStr ''query''
           then bind (get param ''name'') (\<lambda>n.
                bind (to_string eng n) (\<lambda>nm.
                Inr (if truthy_value (data_at input nm) then [(nm, data_at input nm)] else [])))
           else Inr []) (\<lambda>q.
     bind (append_query_parameters eng input ps) (\<lambda>qs. Inr (q @ qs))))"

definition forEach_parameter :: "json \<Rightarrow> (json list \<Rightarrow> js_error + 'a) \<Rightarrow> 'a \<Rightarrow> js_error + 'a" where
  \<comment> \<open>\<open>if (endpoint.parameters) endpoint.parameters.forEach(...)\<close>; the third
      argument is the result when \<open>forEach\<close> is not called\<close>
  "forEach_parameter ps callbacks skipped =
     (if \<not> truthy ps then Inr skipped
      else case ps of
             JArr xs \<Rightarrow> callbacks xs
           | _ \<Rightarrow> Inl (TypeError (Not_a_function ''endpoint.parameters.forEach'')))"

definition path_url :: "engine \<Rightarrow> config \<Rightarrow> endpoint \<Rightarrow> string obj \<Rightarrow> js_error + string" where
  \<comment> \<open>the variable \<open>url\<close> after section 1 of \<open>executeRequest\<close>\<close>
  "path_url eng cfg ep input =
     (let url = strip_final_slash (baseUrl cfg) @ path ep
      in forEach_parameter (parameters ep) (\<lambda>xs. replace_path_parameters eng input xs url) url)"

definition query_parameters ::
  "engine \<Rightarrow> endpoint \<Rightarrow> string obj \<Rightarrow> js_error + (string \<times> data_value) list" where
  \<comment> \<open>the entries of \<open>queryParams\<close> after section 2 of \<open>executeRequest\<close>\<close>
  "query_parameters eng ep input =
     forEach_parameter (parameters ep) (append_query_parameters eng input) []"

record options =
  opt_method :: string
  opt_headers :: "string obj"
  opt_body :: "string obj option"

definition spread :: "'v obj \<Rightarrow> 'v obj \<Rightarrow> 'v obj" where
  \<comment> \<open>\<open>{...target, ...source}\<close>: the properties of \<open>source\<close> are assigned in the
      order of \<open>Object.keys\<close>\<close>
  "spread target source =
     fold (\<lambda>k. AList.update k (the (map_of source k))) (own_keys source) target"

definition request_headers :: "config \<Rightarrow> string obj" where
  "request_headers cfg =
     (let hs = spread [(''Content-Type'', ''application/json'')]
                 (fold (\<lambda>h acc. AList.update (key h) (val h) (spread [] acc)) (headers cfg) [])
      in if token cfg \<noteq> [] then AList.update ''Authorization'' (''Bearer '' @ token cfg) hs
         else hs)"

definition parameter_names :: "json \<Rightarrow> js_error + json list" where
  \<comment> \<open>\<open>endpoint.parameters?.map(p => p.name) || []\<close>\<close>
  "parameter_names ps =
     (if ps = JUndefined \<or> ps = JNull then Inr []
      else case ps of
             JArr xs \<Rightarrow> try_map (\<lambda>p. get p ''name'') xs
           | _ \<Rightarrow> Inl (TypeError (Not_a_function ''endpoint.parameters?.map'')))"

definition body_schema :: "json \<Rightarrow> js_error + json" where
  \<comment> \<open>\<open>endpoint.requestBody.content?.['application/json']?.schema\<close>\<close>
  "body_schema rb =
     bind (get rb ''content'') (\<lambda>c.
     bind (get_opt c ''application/json'') (\<lambda>j.
     get_opt j ''schema''))"

definition bodyData :: "json list \<Rightarrow> string list \<Rightarrow> string obj \<Rightarrow> string obj" where
  \<comment> \<open>the \<open>Object.keys(data).forEach\<close> that fills \<open>bodyData\<close>\<close>
  "bodyData pathParams bodyFields data =
     fold (\<lambda>k acc. if JStr k \<notin> set pathParams \<and> (length bodyFields = 0 \<or> k \<in> set bodyFields)
                    then assign k (the (map_of data k)) acc else acc)
          (own_keys data) []"

definition bodyFields :: "endpoint \<Rightarrow> js_error + string list" where
  \<comment> \<open>the variable \<open>bodyFields\<close>: the names of the fields of the body schema, none
      when the request body declares no schema\<close>
  "bodyFields ep =
     bind (body_schema (requestBody ep)) (\<lambda>schema.
     if truthy schema
     then bind (extractFieldsFromSchema schema (definitions ep)) (\<lambda>fs. Inr (map name fs))
     else Inr [])"

definition request_body :: "endpoint \<Rightarrow> string obj \<Rightarrow> js_error + string obj option" where
  \<comment> \<open>section 3 of \<open>executeRequest\<close>; \<open>options.body\<close> is the \<open>JSON.stringify\<close> of the
      object returned here\<close>
  "request_body ep data =
     (if method' ep \<in> set [''post'', ''put'', ''patch''] \<and> truthy (requestBody ep) then
        bind (parameter_names (parameters ep)) (\<lambda>pathParams.
        bind (bodyFields ep) (\<lambda>fs.
        Inr (Some (bodyData pathParams fs data))))
      else Inr None)"

definition request_options ::
  "engine \<Rightarrow> config \<Rightarrow> endpoint \<Rightarrow> string obj \<Rightarrow> js_error + options" where
  \<comment> \<open>everything that \<open>executeRequest\<close> does before its \<open>try\<close>\<close>
  "request_options eng cfg ep input =
     (let m = toUpperCase (method' ep); hs = request_headers cfg
      in bind (path_url eng cfg ep input) (\<lambda>url.
         bind (query_parameters eng ep input) (\<lambda>queryParams.
         bind (request_body ep input) (\<lambda>b.
         Inr \<lparr>opt_method = m, opt_headers = hs, opt_body = b\<rparr>))))"

text \<open>
  A \<open>Response\<close> of the Fetch standard, as far as the program uses it. \<open>res.ok\<close>
  holds for the status codes 200 to 299. The body can be read once: \<open>json()\<close> and
  \<open>text()\<close> reject with a \<open>TypeError\<close> on a body that has been read, and mark the
  body as read otherwise; \<open>json()\<close> then rejects with the \<open>SyntaxError\<close> of the
  parser when the text is not JSON. A response without a body (\<open>res_body = None\<close>, as
  for status 204) reads as the empty text any number of times.
\<close>

record response =
  res_status :: nat
  res_body :: "string option"
  bodyUsed :: bool

definition ok :: "response \<Rightarrow> bool" where
  "ok res \<longleftrightarrow> 200 \<le> res_status res \<and> res_status res \<le> 299"

definition consume :: "string \<Rightarrow> response \<Rightarrow> (js_error + string) \<times> response" where
  \<comment> \<open>reading the body for the method of the given name\<close>
  "consume what res =
     (case res_body res of
        None \<Rightarrow> (Inr [], res)
      | Some t \<Rightarrow>
          if bodyUsed res
          then (Inl (TypeError (Body_read what)), res)
          else (Inr t, res\<lparr>bodyUsed := True\<rparr>))"

definition res_json :: "engine \<Rightarrow> response \<Rightarrow> (js_error + json) \<times> response" where
  "res_json eng res =
     (case consume ''json'' res of
        (Inl e, res') \<Rightarrow> (Inl e, res')
      | (Inr t, res') \<Rightarrow>
          (case JSON_parse eng t of Inl m \<Rightarrow> (Inl (SyntaxError m), res') | Inr v \<Rightarrow> (Inr v, res')))"

definition res_text :: "response \<Rightarrow> (js_error + json) \<times> response" where
  "res_text res =
     (case consume ''text'' res of (Inl e, res') \<Rightarrow> (Inl e, res') | (Inr t, res') \<Rightarrow> (Inr (JStr t), res'))"

datatype fetched =
    Rejected string
  | Resolved response nat

text \<open>
  \<open>fetch\<close> either rejects, with the message of its error, or resolves with a
  response; the second argument of \<^const>\<open>Resolved\<close> is \<open>Date.now() - start\<close>.
  A call that never settles is outside the model.
\<close>

record outcome =
  success :: bool
  status :: nat
  time :: nat
  data :: json
  isNetworkError :: bool

definition network_failure :: "string \<Rightarrow> outcome" where
  \<comment> \<open>the object that the outer \<open>catch\<close> returns\<close>
  "network_failure m =
     \<lparr>success = False, status = 0, time = 0, data = JStr m, isNetworkError = True\<rparr>"

definition settle :: "engine \<Rightarrow> fetched \<Rightarrow> outcome" where
  \<comment> \<open>the outer \<open>try\<close> of \<open>executeRequest\<close>; a member \<open>isNetworkError\<close> that is absent
      reads as \<open>False\<close>\<close>
  "settle eng f =
     (case f of
        Rejected m \<Rightarrow> network_failure m
      | Resolved res t \<Rightarrow>
          (case res_json eng res of
             (Inr v, _) \<Rightarrow>
               \<lparr>success = ok res, status = res_status res, time = t, data = v,
                isNetworkError = False\<rparr>
           | (Inl _, res') \<Rightarrow>
               (case res_text res' of
                  (Inr v, _) \<Rightarrow>
                    \<lparr>success = ok res, status = res_status res, time = t, data = v,
                     isNetworkError = False\<rparr>
                | (Inl e, _) \<Rightarrow> network_failure (message eng e))))"

definition executeRequest ::
  "engine \<Rightarrow> (options \<Rightarrow> fetched) \<Rightarrow> config \<Rightarrow> endpoint \<Rightarrow> string obj \<Rightarrow> js_error + outcome" where
  "executeRequest eng fetch cfg ep input =
     bind (request_options eng cfg ep input) (\<lambda>opts. Inr (settle eng (fetch opts)))"

section \<open>Numbers\<close>

text \<open>
  A JavaScript number is a binary64 floating-point number; the finite ones are
  rationals. \<^term>\<open>double_of q\<close> is the binary64 nearest to \<open>q\<close>, ties going to the
  even significand, for \<open>q\<close> of magnitude below \<open>2^1024\<close>. Division and
  multiplication round the exact result once. \<open>Math.round\<close> is exact and rounds a
  tie upwards.
\<close>

definition pow2 :: "int \<Rightarrow> rat" where
  "pow2 e = (if 0 \<le> e then 2 ^ nat e else 1 / 2 ^ nat (- e))"

function bit_length :: "int \<Rightarrow> int" where
  \<comment> \<open>the number of binary digits of a positive integer\<close>
  "bit_length a = (if a \<le> 0 then 0 else 1 + bit_length (a div 2))"
  by pat_completeness auto
termination
  by (relation "measure nat") auto

declare bit_length.simps [simp del]

definition floor_log2 :: "rat \<Rightarrow> int" where
  \<comment> \<open>the \<open>e\<close> with \<open>2^e \<le> q < 2^(e+1)\<close>, for \<open>q > 0\<close>\<close>
  "floor_log2 q =
     (let (a, b) = quotient_of q;
          d = bit_length a - bit_length b
      in if pow2 d \<le> q then d else d - 1)"

definition round_half_even :: "rat \<Rightarrow> int" where
  "round_half_even m =
     (let f = \<lfloor>m\<rfloor>; r = m - of_int f
      in if r < 1 / 2 then f else if 1 / 2 < r then f + 1 else if even f then f else f + 1)"

definition double_of :: "rat \<Rightarrow> rat" where
  "double_of q =
     (if q = 0 then 0
      else let e = max (floor_log2 \<bar>q\<bar>) (- 1022); ulp = pow2 (e - 52)
           in of_int (round_half_even (q / ulp)) * ulp)"

definition Math_round :: "rat \<Rightarrow> int" where
  "Math_round x = \<lfloor>x + 1 / 2\<rfloor>"

section \<open>The batch run\<close>

definition as_cells :: "string obj \<Rightarrow> cell obj" where
  \<comment> \<open>a row of strings as a row of the result table\<close>
  "as_cells row = map (\<lambda>(k, v). (k, CStr v)) row"

definition response_text :: "engine \<Rightarrow> json \<Rightarrow> string" where
  \<comment> \<open>\<open>typeof d === 'object' ? JSON.stringify(d) : String(d)\<close>\<close>
  "response_text eng d =
     (case d of
        JUndefined \<Rightarrow> ''undefined''
      | JBool b \<Rightarrow> (if b then ''true'' else ''false'')
      | JNum n \<Rightarrow> Number_toString eng n
      | JStr s \<Rightarrow> s
      | _ \<Rightarrow> JSON_stringify eng d)"

definition resultRow :: "engine \<Rightarrow> nat \<Rightarrow> string obj \<Rightarrow> outcome \<Rightarrow> cell obj" where
  \<comment> \<open>the object literal \<open>{_rowIndex: i + 1, ...row, _status: ..., _success: ..., _response: ...}\<close>\<close>
  "resultRow eng i row result =
     AList.update ''_response'' (CStr (response_text eng (data result)))
       (AList.update ''_success'' (CStr (if success result then ''PASS'' else ''FAIL''))
         (AList.update ''_status'' (CNum (status result))
           (spread [(''_rowIndex'', CNum (i + 1))] (as_cells row))))"

definition progress :: "nat \<Rightarrow> nat \<Rightarrow> int" where
  \<comment> \<open>\<open>Math.round(((i + 1) / batchData.length) * 100)\<close>\<close>
  "progress i n = Math_round (double_of (double_of (of_nat (i + 1) / of_nat n) * 100))"

text \<open>
  The \<open>for\<close> loop of \<open>runBatchTest\<close>, from row \<open>i\<close> on. The environment answers the
  call for row \<open>i\<close> with \<open>fetch i\<close>. An exception of \<open>executeRequest\<close> leaves the
  loop and the function; it is returned with the state reached. The second
  component lists what the loop has published after each row: the value given
  to \<open>setBatchResults\<close> and the one given to \<open>setBatchProgress\<close>.
\<close>

fun batch_loop ::
  "engine \<Rightarrow> (nat \<Rightarrow> options \<Rightarrow> fetched) \<Rightarrow> config \<Rightarrow> endpoint \<Rightarrow> nat \<Rightarrow>
   nat \<Rightarrow> string obj list \<Rightarrow> cell obj list \<Rightarrow> app_state \<Rightarrow>
   js_error option \<times> (cell obj list \<times> int) list \<times> app_state" where
  "batch_loop eng fetch cfg ep n i [] results st = (None, [], st)"
| "batch_loop eng fetch cfg ep n i (row # rows) results st =
     (case executeRequest eng (fetch i) cfg ep row of
        Inl e \<Rightarrow> (Some e, [], st)
      | Inr result \<Rightarrow>
          (let results' = results @ [resultRow eng i row result];
               st' = st\<lparr>batchResults := results', batchProgress := progress i n\<rparr>;
               (err, pub, st'') = batch_loop eng fetch cfg ep n (i + 1) rows results' st'
           in (err, (results', progress i n) # pub, st'')))"

definition runBatchTest ::
  "engine \<Rightarrow> (nat \<Rightarrow> options \<Rightarrow> fetched) \<Rightarrow> app_state \<Rightarrow>
   js_error option \<times> (cell obj list \<times> int) list \<times> app_state" where
  "runBatchTest eng fetch st =
     (case selectedEndpoint st of
        None \<Rightarrow> (None, [], st)
      | Some ep \<Rightarrow>
          if length (batchData st) = 0 then (None, [], st)
          else
            (let st1 = st\<lparr>batchRunning := True, batchResults := []\<rparr>;
                 (err, pub, st2) =
                    batch_loop eng fetch (config st) ep (length (batchData st)) 0 (batchData st) [] st1
             in case err of
                  None \<Rightarrow> (None, pub, st2\<lparr>batchRunning := False\<rparr>)
                | Some e \<Rightarrow> (Some e, pub, st2)))"

section \<open>Exporting the results\<close>

definition escapeCsv :: "cell option \<Rightarrow> string" where
  \<comment> \<open>a key that a row lacks reads as \<open>undefined\<close>, here \<open>None\<close>\<close>
  "escapeCsv v =
     (case v of
        None \<Rightarrow> []
      | Some c \<Rightarrow>
          (let stringVal = (case c of CNum n \<Rightarrow> digits_of n | CStr s \<Rightarrow> s)
           in if CHR 0x22 \<in> set stringVal \<or> CHR '','' \<in> set stringVal \<or> CHR 0x0A \<in> set stringVal
              then [CHR 0x22] @ double_quotes stringVal @ [CHR 0x22]
              else stringVal))"

definition csv_lines :: "cell obj list \<Rightarrow> string list" where
  \<comment> \<open>the array \<open>[headers.join(','), ...batchResults.map(...)]\<close>, for at least one row\<close>
  "csv_lines rows =
     (let hdrs = own_keys (hd rows)
      in join '','' hdrs # map (\<lambda>row. join '','' (map (\<lambda>h. escapeCsv (map_of row h)) hdrs)) rows)"

definition csvContent :: "cell obj list \<Rightarrow> string" where
  \<comment> \<open>the text that \<open>downloadBatchResults\<close> puts into the file\<close>
  "csvContent rows = join [CHR 0x0A] (csv_lines rows)"

definition downloadBatchResults :: "app_state \<Rightarrow> string option" where
  \<comment> \<open>the content of the downloaded file; \<open>None\<close> when the function returns at once\<close>
  "downloadBatchResults st =
     (if length (batchResults st) = 0 then None else Some (csvContent (batchResults st)))"

section \<open>The specification's own notions\<close>


definition member_of :: "json \<Rightarrow> string \<Rightarrow> json" where
  "member_of v k = (case get v k of Inr x \<Rightarrow> x | Inl e \<Rightarrow> JUndefined)"




definition path_parameter_names :: "json \<Rightarrow> json list" where
  \<comment> \<open>the names of the parameters whose location is \<open>path\<close>\<close>
  "path_parameter_names ps =
     (case ps of
        JArr xs \<Rightarrow> map (\<lambda>p. member_of p ''name'') (filter (\<lambda>p. member_of p ''in'' = JStr ''path'') xs)
      | _ \<Rightarrow> [])"

definition missing_paths_message :: string where
  "missing_paths_message =
     ''Invalid OpenAPI/Swagger Spec: Missing '' @ [CHR 0x27] @ ''paths'' @ [CHR 0x27]"

section \<open>Examples\<close>

text \<open>
  An engine for the examples: its parser knows the texts of a table and rejects
  every other text, as \<open>JSON.parse\<close> rejects each text that the examples hand to
  it outside the table. Its \<open>TypeError\<close>s say what raised them.
\<close>

fun example_message :: "type_error \<Rightarrow> string" where
  "example_message (Read_member what k) = ''cannot read '' @ k @ '' of '' @ what"
| "example_message (Not_a_function f) = f @ '' is not a function''"
| "example_message (To_object f) = f @ '' called on null or undefined''"
| "example_message No_primitive = ''cannot convert object to primitive value''"
| "example_message (Body_read f) = f @ '': body already read''"

definition table_parser :: "(string \<times> json) list \<Rightarrow> string \<Rightarrow> string + json" where
  "table_parser tbl s =
     (case map_of tbl s of Some v \<Rightarrow> Inr v | None \<Rightarrow> Inl ''Unexpected token'')"

definition example_engine :: engine where
  "example_engine =
     \<lparr>JSON_parse = table_parser
        [(''{}'', JObj []),
         (''null'', JNull),
         ([CHR ''{'', CHR 0x22] @ ''paths'' @ [CHR 0x22] @ '': 5}'', JObj [(''paths'', JNum 5)])],
      JSON_stringify = (\<lambda>v. ''{}''),
      Number_toString = (\<lambda>n. ''0''),
      TypeError_message = example_message\<rparr>"

definition schema_of_name :: json where
  \<comment> \<open>a request body whose schema has the one field \<open>name\<close>\<close>
  "schema_of_name =
     JObj [(''content'', JObj [(''application/json'',
       JObj [(''schema'', JObj [(''properties'',
         JObj [(''name'', JObj [(''type'', JStr ''string'')])])])])])]"

definition upper_post_document :: json where
  \<comment> \<open>\<open>{"paths": {"/users": {"POST": {"requestBody": ...}}}}\<close>\<close>
  "upper_post_document =
     JObj [(''paths'', JObj [(''/users'', JObj [(''POST'',
       JObj [(''requestBody'', schema_of_name)])])])]"

definition upper_post_endpoint :: endpoint where
  "upper_post_endpoint =
     \<lparr>id' = ''POST-/users'', path = ''/users'', method' = ''POST'', summary = JStr ''/users'',
      parameters = JArr [], requestBody = schema_of_name, definitions = JUndefined\<rparr>"

definition get_endpoint :: endpoint where
  "get_endpoint =
     \<lparr>id' = ''get-/users'', path = ''/users'', method' = ''get'', summary = JStr ''/users'',
      parameters = JArr [], requestBody = JUndefined, definitions = JUndefined\<rparr>"

definition batch_state :: "string \<Rightarrow> app_state" where
  \<comment> \<open>the state after the upload of a CSV file, with an endpoint selected\<close>
  "batch_state csv =
     \<lparr>activeTab = ''batch'', specInput = [], parsedSpec = None, error = [],
      config = \<lparr>baseUrl = ''https://api.example.com'', token = [], headers = []\<rparr>,
      selectedEndpoint = Some get_endpoint, batchData = parseCSV csv, batchResults = [],
      batchProgress = 0, batchRunning = False\<rparr>"




definition imported_state :: "string \<Rightarrow> app_state" where
  \<comment> \<open>a state that holds a catalog, with the given text in the input field\<close>
  "imported_state text =
     \<lparr>activeTab = ''setup'', specInput = text,
      parsedSpec = Some \<lparr>info = JUndefined, endpoints = [get_endpoint]\<rparr>, error = [],
      config = \<lparr>baseUrl = ''https://api.example.com'', token = [], headers = []\<rparr>,
      selectedEndpoint = Some get_endpoint, batchData = [], batchResults = [],
      batchProgress = 0, batchRunning = False\<rparr>"

definition paths_5_text :: string where
  "paths_5_text = [CHR ''{'', CHR 0x22] @ ''paths'' @ [CHR 0x22] @ '': 5}''"

definition schema_of :: "string list \<Rightarrow> json" where
  \<comment> \<open>a request body whose schema declares the given fields\<close>
  "schema_of fs =
     JObj [(''content'', JObj [(''application/json'',
       JObj [(''schema'', JObj [(''properties'',
         JObj (map (\<lambda>f. (f, JObj [(''type'', JStr ''string'')])) fs))])])])]"

definition search_endpoint :: endpoint where
  "search_endpoint =
     \<lparr>id' = ''post-/search'', path = ''/search'', method' = ''post'', summary = JStr ''/search'',
      parameters = JArr [JObj [(''name'', JStr ''q''), (''in'', JStr ''query'')]],
      requestBody = schema_of [''name'', ''q''], definitions = JUndefined\<rparr>"

definition update_user_endpoint :: endpoint where
  "update_user_endpoint =
     \<lparr>id' = ''put-/users/{id}'', path = ''/users/{id}'', method' = ''put'',
      summary = JStr ''/users/{id}'',
      parameters = JArr [JObj [(''name'', JStr ''id''), (''in'', JStr ''path'')]],
      requestBody = schema_of [''name'', ''age''], definitions = JUndefined\<rparr>"

definition example_config :: config where
  "example_config = \<lparr>baseUrl = ''https://api.example.com/'', token = [], headers = []\<rparr>"

definition value_of_endpoint :: endpoint where
  \<comment> \<open>an endpoint with the path parameter \<open>valueOf\<close>\<close>
  "value_of_endpoint =
     \<lparr>id' = ''get-/items/{valueOf}'', path = ''/items/{valueOf}'', method' = ''get'',
      summary = JStr ''/items/{valueOf}'',
      parameters = JArr [JObj [(''name'', JStr ''valueOf''), (''in'', JStr ''path'')]],
      requestBody = JUndefined, definitions = JUndefined\<rparr>"

definition sample_csv :: string where
  \<comment> \<open>three lines: a header with two numeric column names, a row with a quoted cell
      that holds a comma and an empty cell, and a short row\<close>
  "sample_csv = ''b,10,a,9'' @ [CHR 0x0A, CHR 0x22] @ ''x,y'' @ [CHR 0x22] @ '',2,,4'' @ [CHR 0x0A] @ ''p''"

definition newline_cell_csv :: string where
  \<comment> \<open>a header \<open>h\<close> and one row, whose quoted cell holds \<open>a\<close>, a newline and \<open>b\<close>\<close>
  "newline_cell_csv = ''h'' @ [CHR 0x0A, CHR 0x22] @ ''a'' @ [CHR 0x0A] @ ''b'' @ [CHR 0x22]"

definition empty_cell_csv :: string where
  \<comment> \<open>the lines \<open>a\<close>, \<open>""\<close> and \<open>x\<close>\<close>
  "empty_cell_csv = ''a'' @ [CHR 0x0A, CHR 0x22, CHR 0x22, CHR 0x0A] @ ''x''"

definition comma_header_csv :: string where
  \<comment> \<open>the lines \<open>"a,b"\<close> and \<open>1\<close>\<close>
  "comma_header_csv = [CHR 0x22] @ ''a,b'' @ [CHR 0x22, CHR 0x0A] @ ''1''"

section \<open>Exceptions and objects\<close>

lemma bind_Inr_iff: "bind m f = Inr y \<longleftrightarrow> (\<exists>x. m = Inr x \<and> f x = Inr y)"
  by (cases m) (simp_all add: bind_def)


lemma set_first_keys: "set (first_keys ps) = fst ` set ps"
  by (induction ps) auto

lemma distinct_first_keys: "distinct (first_keys ps)"
  by (induction ps) auto

lemma set_key_order: "set (key_order ks) = set ks"
  by (auto simp: key_order_def)

lemma distinct_key_order: "distinct ks \<Longrightarrow> distinct (key_order ks)"
  by (auto simp: key_order_def)

lemma set_own_keys: "set (own_keys ob) = fst ` set ob"
  by (simp add: own_keys_def set_key_order set_first_keys)

lemma distinct_own_keys: "distinct (own_keys ob)"
  by (simp add: own_keys_def distinct_key_order distinct_first_keys)

section \<open>Properties of the CSV parser\<close>

subsection \<open>Trimming, quotes, lines\<close>

lemma dropWhile_fixed: "xs = [] \<or> \<not> P (hd xs) \<Longrightarrow> dropWhile P xs = xs"
  by (cases xs) auto

lemma trim_fixed:
  assumes "s = [] \<or> (\<not> is_space (hd s) \<and> \<not> is_space (last s))"
  shows "trim s = s"
proof (cases "s = []")
  case True
  then show ?thesis by (simp add: trim_def)
next
  case False
  with assms have h: "\<not> is_space (hd s)" and l: "\<not> is_space (last s)" by simp_all
  have 1: "dropWhile is_space s = s" using h by (simp add: dropWhile_fixed)
  have "hd (rev s) = last s" using False by (simp add: hd_rev)
  then have 2: "dropWhile is_space (rev s) = rev s" using l by (simp add: dropWhile_fixed)
  show ?thesis by (simp add: trim_def 1 2)
qed

lemma set_trim: "set (trim s) \<subseteq> set s"
proof -
  have "set (trim s) \<subseteq> set (dropWhile is_space s)"
    unfolding trim_def using set_dropWhileD by fastforce
  also have "\<dots> \<subseteq> set s" using set_dropWhileD by fastforce
  finally show ?thesis .
qed

lemma trim_shape:
  "trim s = [] \<or> (\<not> is_space (hd (trim s)) \<and> \<not> is_space (last (trim s)))"
proof (cases "trim s = []")
  case True
  then show ?thesis by simp
next
  case False
  define a where "a = dropWhile is_space s"
  define b where "b = dropWhile is_space (rev a)"
  have t: "trim s = rev b" by (simp add: trim_def a_def b_def)
  with False have bne: "b \<noteq> []" by simp
  then have hb: "\<not> is_space (hd b)" unfolding b_def by (metis hd_dropWhile)
  from bne have ane: "a \<noteq> []" unfolding b_def by auto
  then have ha: "\<not> is_space (hd a)" unfolding a_def by (metis hd_dropWhile)
  obtain c where c: "rev a = c @ b"
    unfolding b_def by (metis takeWhile_dropWhile_id)
  from c bne have "last (rev a) = last b" by simp
  with ane have lb: "last b = hd a" by (simp add: last_rev)
  have "hd (rev b) = last b" using bne by (simp add: hd_rev)
  moreover have "last (rev b) = hd b" using bne by (simp add: last_rev)
  ultimately show ?thesis using t ha hb lb by simp
qed

lemma trim_idem: "trim (trim s) = trim s"
  by (rule trim_fixed) (rule trim_shape)

lemma strip_outer_quotes_plain: "CHR 0x22 \<notin> set s \<Longrightarrow> strip_outer_quotes s = s"
proof (cases s)
  case Nil
  then show ?thesis by (simp add: strip_outer_quotes_def)
next
  case (Cons c r)
  assume q: "CHR 0x22 \<notin> set s"
  with Cons have "c \<noteq> CHR 0x22" by auto
  moreover from q Cons have "last s \<noteq> CHR 0x22" by (metis last_in_set list.discI)
  ultimately show ?thesis using Cons by (simp add: strip_outer_quotes_def)
qed

lemma unescape_quotes_plain: "CHR 0x22 \<notin> set s \<Longrightarrow> unescape_quotes s = s"
  by (induction s rule: unescape_quotes.induct) auto

lemma double_quotes_plain: "CHR 0x22 \<notin> set s \<Longrightarrow> double_quotes s = s"
  by (induction s) auto

lemma clean_cell_plain: "CHR 0x22 \<notin> set s \<Longrightarrow> clean_cell s = trim s"
proof -
  assume "CHR 0x22 \<notin> set s"
  then have "CHR 0x22 \<notin> set (trim s)" using set_trim by blast
  then show ?thesis
    by (simp add: clean_cell_def strip_outer_quotes_plain unescape_quotes_plain)
qed

lemma cleanKey_plain: "CHR 0x22 \<notin> set s \<Longrightarrow> cleanKey s = trim s"
  by (simp add: cleanKey_def strip_outer_quotes_plain)

lemma split_loop_line:
  "sep \<notin> set l \<Longrightarrow> split_loop sep cur (l @ sep # rest) = (cur @ l) # split_loop sep [] rest"
  by (induction l arbitrary: cur) auto

lemma split_loop_last: "sep \<notin> set l \<Longrightarrow> split_loop sep cur l = [cur @ l]"
  by (induction l arbitrary: cur) auto

lemma split_loop_join:
  "\<forall>l \<in> set (x # ls). sep \<notin> set l \<Longrightarrow>
     split_loop sep cur (join [sep] (x # ls)) = (cur @ x) # ls"
proof (induction ls arbitrary: x cur)
  case Nil
  then show ?case by (simp add: split_loop_last)
next
  case (Cons y ls)
  then have "split_loop sep [] (join [sep] (y # ls)) = y # ls" by force
  with Cons.prems show ?case
    using split_loop_line [of sep x cur "join [sep] (y # ls)"] by simp
qed

lemma split_join:
  assumes "ls \<noteq> []" and "\<forall>l \<in> set ls. sep \<notin> set l"
  shows "split sep (join [sep] ls) = ls"
proof -
  from assms(1) obtain x xs where "ls = x # xs" by (cases ls) auto
  with assms(2) show ?thesis
    using split_loop_join [of x xs sep "[]"] by (simp add: split_def)
qed

lemma split_loop_no_sep:
  "sep \<notin> set cur \<Longrightarrow> \<forall>l \<in> set (split_loop sep cur s). sep \<notin> set l"
proof (induction s arbitrary: cur)
  case Nil
  then show ?case by simp
next
  case (Cons c s)
  show ?case
  proof (cases "c = sep")
    case True
    have "\<forall>l \<in> set (split_loop sep [] s). sep \<notin> set l" by (rule Cons.IH) simp
    with True Cons.prems show ?thesis by simp
  next
    case False
    with Cons.prems have "sep \<notin> set (cur @ [c])" by simp
    then have "\<forall>l \<in> set (split_loop sep (cur @ [c]) s). sep \<notin> set l" by (rule Cons.IH)
    with False show ?thesis by simp
  qed
qed

lemma split_no_sep: "l \<in> set (split sep s) \<Longrightarrow> sep \<notin> set l"
  unfolding split_def using split_loop_no_sep [of sep "[]" s] by simp

subsection \<open>One line\<close>

lemma parseLine_loop_plain:
  "CHR 0x22 \<notin> set v \<Longrightarrow> CHR '','' \<notin> set v \<Longrightarrow>
     parseLine_loop (v @ rest) vals cur q = parseLine_loop rest vals (cur @ v) q"
proof (induction v arbitrary: cur)
  case Nil
  then show ?case by simp
next
  case (Cons c v)
  then have "c \<noteq> CHR 0x22" "c \<noteq> CHR '',''" by auto
  then have "parseLine_loop ((c # v) @ rest) vals cur q = parseLine_loop (v @ rest) vals (cur @ [c]) q"
    by simp
  also have "\<dots> = parseLine_loop rest vals ((cur @ [c]) @ v) q"
    using Cons.prems by (intro Cons.IH) auto
  finally show ?case by simp
qed

lemma parseLine_loop_quoted:
  "CHR 0x22 \<notin> set v \<Longrightarrow>
     parseLine_loop (v @ rest) vals cur True = parseLine_loop rest vals (cur @ v) True"
proof (induction v arbitrary: cur)
  case Nil
  then show ?case by simp
next
  case (Cons c v)
  then have "c \<noteq> CHR 0x22" by auto
  then have "parseLine_loop ((c # v) @ rest) vals cur True =
      parseLine_loop (v @ rest) vals (cur @ [c]) True"
    by simp
  also have "\<dots> = parseLine_loop rest vals ((cur @ [c]) @ v) True"
    using Cons.prems by (intro Cons.IH) auto
  finally show ?case by simp
qed

lemma escapeCsv_plain:
  assumes "CHR 0x22 \<notin> set v" and "CHR 0x0A \<notin> set v"
  shows "escapeCsv (Some (CStr v)) =
           (if CHR '','' \<in> set v then [CHR 0x22] @ v @ [CHR 0x22] else v)"
  using assms by (simp add: escapeCsv_def double_quotes_plain)

lemma parseLine_loop_cell:
  assumes "CHR 0x22 \<notin> set v" and "CHR 0x0A \<notin> set v"
  shows "parseLine_loop (escapeCsv (Some (CStr v)) @ rest) vals [] False =
           parseLine_loop rest vals v False"
proof (cases "CHR '','' \<in> set v")
  case True
  then have "escapeCsv (Some (CStr v)) = CHR 0x22 # v @ [CHR 0x22]"
    using assms by (simp add: escapeCsv_plain)
  then have "parseLine_loop (escapeCsv (Some (CStr v)) @ rest) vals [] False =
      parseLine_loop (v @ CHR 0x22 # rest) vals [] True" by simp
  also have "\<dots> = parseLine_loop (CHR 0x22 # rest) vals v True"
    using parseLine_loop_quoted [OF assms(1), of "CHR 0x22 # rest" vals "[]"] by simp
  also have "\<dots> = parseLine_loop rest vals v False" by simp
  finally show ?thesis .
next
  case False
  then have "escapeCsv (Some (CStr v)) = v" using assms by (simp add: escapeCsv_plain)
  then show ?thesis
    using parseLine_loop_plain [OF assms(1) False, of rest vals "[]" False] by simp
qed

lemma parseLine_loop_cells:
  assumes "\<forall>v \<in> set (x # vs). CHR 0x22 \<notin> set v \<and> CHR 0x0A \<notin> set v \<and> trim v = v"
  shows "parseLine_loop (join '','' (map (\<lambda>v. escapeCsv (Some (CStr v))) (x # vs))) vals [] False =
           vals @ x # vs"
  using assms
proof (induction vs arbitrary: x vals)
  case Nil
  then have x: "CHR 0x22 \<notin> set x" "CHR 0x0A \<notin> set x" "trim x = x" by simp_all
  from parseLine_loop_cell [OF x(1,2), of "[]" vals] x show ?case
    by (simp add: clean_cell_plain)
next
  case (Cons y vs)
  then have x: "CHR 0x22 \<notin> set x" "CHR 0x0A \<notin> set x" "trim x = x" by simp_all
  from Cons.prems
  have ih: "parseLine_loop (join '','' (map (\<lambda>v. escapeCsv (Some (CStr v))) (y # vs)))
              (vals @ [x]) [] False = (vals @ [x]) @ y # vs"
    by (intro Cons.IH) simp
  have "parseLine_loop (join '','' (map (\<lambda>v. escapeCsv (Some (CStr v))) (x # y # vs))) vals [] False =
      parseLine_loop (escapeCsv (Some (CStr x)) @
        CHR '','' # join '','' (map (\<lambda>v. escapeCsv (Some (CStr v))) (y # vs))) vals [] False"
    by simp
  also have "\<dots> = parseLine_loop (CHR '','' #
        join '','' (map (\<lambda>v. escapeCsv (Some (CStr v))) (y # vs))) vals x False"
    by (rule parseLine_loop_cell [OF x(1,2)])
  also have "\<dots> = parseLine_loop (join '','' (map (\<lambda>v. escapeCsv (Some (CStr v))) (y # vs)))
        (vals @ [x]) [] False"
    using x by (simp add: clean_cell_plain)
  finally show ?case using ih by simp
qed

lemma parseLine_cells:
  assumes "vs \<noteq> []"
    and "\<forall>v \<in> set vs. CHR 0x22 \<notin> set v \<and> CHR 0x0A \<notin> set v \<and> trim v = v"
  shows "parseLine (join '','' (map (\<lambda>v. escapeCsv (Some (CStr v))) vs)) = vs"
proof -
  from assms(1) obtain x xs where "vs = x # xs" by (cases vs) auto
  with assms(2) show ?thesis
    using parseLine_loop_cells [of x xs "[]"] by (simp add: parseLine_def)
qed

lemma parseLine_keys:
  assumes "ks \<noteq> []"
    and "\<forall>k \<in> set ks. CHR 0x22 \<notin> set k \<and> CHR 0x0A \<notin> set k \<and> trim k = k \<and> CHR '','' \<notin> set k"
  shows "parseLine (join '','' ks) = ks"
proof -
  have "map (\<lambda>v. escapeCsv (Some (CStr v))) ks = ks"
    using assms(2) by (induction ks) (simp_all add: escapeCsv_plain)
  with parseLine_cells [OF assms(1), of ] assms(2) show ?thesis by fastforce
qed

lemma parseLine_loop_clean:
  assumes "CHR 0x22 \<notin> set cur"
    and "\<forall>v \<in> set vals. CHR 0x22 \<notin> set v \<and> trim v = v \<and> (c \<notin> set v)"
    and "c \<notin> set cur" and "c \<notin> set line"
  shows "\<forall>v \<in> set (parseLine_loop line vals cur q). CHR 0x22 \<notin> set v \<and> trim v = v \<and> (c \<notin> set v)"
  using assms
proof (induction line arbitrary: vals cur q)
  case Nil
  have "CHR 0x22 \<notin> set (trim cur)" "c \<notin> set (trim cur)"
    using Nil.prems set_trim by blast+
  with Nil.prems show ?case by (simp add: clean_cell_plain trim_idem)
next
  case (Cons d line)
  have t: "CHR 0x22 \<notin> set (trim cur)" "c \<notin> set (trim cur)"
    using Cons.prems set_trim by blast+
  show ?case
  proof (cases "d = CHR 0x22")
    case True
    have "\<forall>v \<in> set (parseLine_loop line vals cur (\<not> q)).
              CHR 0x22 \<notin> set v \<and> trim v = v \<and> c \<notin> set v"
      using Cons.prems by (intro Cons.IH) simp_all
    with True show ?thesis by simp
  next
    case False
    show ?thesis
    proof (cases "d = CHR '','' \<and> \<not> q")
      case True
      have "\<forall>v \<in> set (parseLine_loop line (vals @ [clean_cell cur]) [] q).
              CHR 0x22 \<notin> set v \<and> trim v = v \<and> c \<notin> set v"
        using Cons.prems t by (intro Cons.IH) (simp_all add: clean_cell_plain trim_idem)
      with True False show ?thesis by simp
    next
      case nc: False
      have "\<forall>v \<in> set (parseLine_loop line vals (cur @ [d]) q).
              CHR 0x22 \<notin> set v \<and> trim v = v \<and> c \<notin> set v"
        using Cons.prems False by (intro Cons.IH) auto
      with nc False show ?thesis by (simp only: parseLine_loop.simps if_False)
    qed
  qed
qed

lemma parseLine_clean:
  assumes "c \<notin> set line" and "v \<in> set (parseLine line)"
  shows "CHR 0x22 \<notin> set v \<and> trim v = v \<and> c \<notin> set v"
  using parseLine_loop_clean [of "[]" "[]" c line False] assms by (simp add: parseLine_def)

lemma parseLine_loop_length: "length vals < length (parseLine_loop line vals cur q)"
proof (induction line arbitrary: vals cur q)
  case Nil
  then show ?case by simp
next
  case (Cons d line)
  have 1: "length vals < length (parseLine_loop line vals cur (\<not> q))" by (rule Cons.IH)
  have "length (vals @ [clean_cell cur]) < length (parseLine_loop line (vals @ [clean_cell cur]) [] q)"
    by (rule Cons.IH)
  then have 2: "length vals < length (parseLine_loop line (vals @ [clean_cell cur]) [] q)" by simp
  have 3: "length vals < length (parseLine_loop line vals (cur @ [d]) q)" by (rule Cons.IH)
  from 1 2 3 show ?case by (cases q) simp_all
qed

lemma parseLine_loop_nonempty: "parseLine_loop line vals cur q \<noteq> []"
  using parseLine_loop_length [of vals line cur q] by auto

lemma parseLine_nonempty: "parseLine line \<noteq> []"
  by (simp add: parseLine_def parseLine_loop_nonempty)

text \<open>
  C2. \<open>parseLine\<close> is to turn a doubled quote inside quoted content into one quote
  character. It does not: every quote character toggles \<open>inQuote\<close> and is never
  added to \<open>current\<close>, so the line \<open>"a""b"\<close> gives the cell \<open>ab\<close>, not \<open>a"b\<close>.
\<close>

theorem parseLine_doubled_quote_lost:
  "parseLine [CHR 0x22, CHR ''a'', CHR 0x22, CHR 0x22, CHR ''b'', CHR 0x22] = [''ab'']"
  by code_simp

subsection \<open>Rows\<close>

lemma update_entry:
  "(k', v') \<in> set (AList.update k v al) \<Longrightarrow> (k', v') = (k, v) \<or> (k', v') \<in> set al"
  by (induction al) (auto split: if_splits)

lemma assign_entry:
  "(k', v') \<in> set (assign k v al) \<Longrightarrow> (k', v') = (k, v) \<or> (k', v') \<in> set al"
  using update_entry by (fastforce simp: assign_def split: if_splits)

lemma assign_keys:
  assumes "map fst al = map fst al'"
  shows "map fst (assign k v al) = map fst (assign k v' al')"
proof -
  from assms have "set (map fst al) = set (map fst al')" by simp
  then have d: "k \<in> fst ` set al \<longleftrightarrow> k \<in> fst ` set al'" by simp
  show ?thesis
  proof (cases "k \<in> fst ` set al")
    case True
    with d have "map_of al k \<noteq> None" "map_of al' k \<noteq> None"
      by (simp_all add: map_of_eq_None_iff)
    then have "assign k v al = AList.update k v al" "assign k v' al' = AList.update k v' al'"
      by (auto simp: assign_def)
    with assms show ?thesis by (simp add: update_keys)
  next
    case False
    with d have n: "map_of al k = None" "map_of al' k = None"
      by (simp_all add: map_of_eq_None_iff)
    show ?thesis
    proof (cases "k = ''__proto__''")
      case True
      with n have "assign k v al = al" "assign k v' al' = al'" by (simp_all add: assign_def)
      with assms show ?thesis by simp
    next
      case False
      then have "assign k v al = AList.update k v al" "assign k v' al' = AList.update k v' al'"
        by (simp_all add: assign_def)
      with assms show ?thesis by (simp add: update_keys)
    qed
  qed
qed

lemma assign_distinct: "distinct (map fst al) \<Longrightarrow> distinct (map fst (assign k v al))"
  by (simp add: assign_def distinct_update)

lemma assign_no_proto:
  "''__proto__'' \<notin> fst ` set al \<Longrightarrow> ''__proto__'' \<notin> fst ` set (assign k v al)"
  by (auto simp: assign_def dom_update map_of_eq_None_iff)

lemma fold_update_entries:
  assumes "(k, v) \<in> set (fold (\<lambda>(h, i). assign (g h) (f i)) xs acc)"
  shows "(k, v) \<in> set acc \<or> (\<exists>(h, i) \<in> set xs. k = g h \<and> v = f i)"
  using assms
proof (induction xs arbitrary: acc)
  case Nil
  then show ?case by simp
next
  case (Cons x xs)
  obtain h i where x: "x = (h, i)" by (cases x)
  from Cons.prems x
  have "(k, v) \<in> set (fold (\<lambda>(h, i). assign (g h) (f i)) xs (assign (g h) (f i) acc))"
    by simp
  from Cons.IH [OF this] show ?case using x assign_entry by fastforce
qed

lemma make_row_entry:
  assumes "(k, v) \<in> set (make_row hdrs vals)"
  shows "k \<in> cleanKey ` set hdrs \<and> (v \<in> set vals \<or> v = [])"
proof -
  from fold_update_entries [OF assms [unfolded make_row_def]]
  obtain h i where "(h, i) \<in> set (zip hdrs [0 ..< length hdrs])" "k = cleanKey h"
    "v = cell_or_empty vals i" by auto
  then show ?thesis by (auto simp: cell_or_empty_def dest: set_zip_leftD)
qed

lemma fold_update_keys:
  assumes "map fst acc = map fst acc'"
  shows "map fst (fold (\<lambda>(h, i). assign (g h) (f i)) xs acc) =
         map fst (fold (\<lambda>(h, i). assign (g h) (f' i)) xs acc')"
  using assms
proof (induction xs arbitrary: acc acc')
  case Nil
  then show ?case by simp
next
  case (Cons x xs)
  obtain h i where x: "x = (h, i)" by (cases x)
  have "map fst (assign (g h) (f i) acc) = map fst (assign (g h) (f' i) acc')"
    using Cons.prems by (rule assign_keys)
  from Cons.IH [OF this] x show ?case by simp
qed

lemma make_row_keys: "map fst (make_row hdrs vals) = map fst (make_row hdrs vals')"
  unfolding make_row_def by (rule fold_update_keys) simp

lemma fold_update_distinct:
  "distinct (map fst acc) \<Longrightarrow>
     distinct (map fst (fold (\<lambda>(h, i). assign (g h) (f i)) xs acc))"
proof (induction xs arbitrary: acc)
  case Nil
  then show ?case by simp
next
  case (Cons x xs)
  obtain h i where x: "x = (h, i)" by (cases x)
  have "distinct (map fst (assign (g h) (f i) acc))"
    using Cons.prems by (rule assign_distinct)
  from Cons.IH [OF this] x show ?case by simp
qed

lemma make_row_distinct: "distinct (map fst (make_row hdrs vals))"
  unfolding make_row_def by (rule fold_update_distinct) simp

lemma first_keys_distinct: "distinct (map fst ob) \<Longrightarrow> first_keys ob = map fst ob"
proof (induction ob)
  case Nil
  then show ?case by simp
next
  case (Cons p ob)
  then have "fst p \<notin> set (map fst ob)" by simp
  then have "filter (\<lambda>k. k \<noteq> fst p) (map fst ob) = map fst ob"
    by (intro filter_True) blast
  with Cons show ?case by simp
qed

lemma own_keys_make_row: "own_keys (make_row hdrs vals) = own_keys (make_row hdrs vals')"
  by (simp add: own_keys_def first_keys_distinct make_row_distinct make_row_keys [of hdrs vals vals'])

lemma fold_assign_no_proto:
  "''__proto__'' \<notin> fst ` set acc \<Longrightarrow>
     ''__proto__'' \<notin> fst ` set (fold (\<lambda>(h, i). assign (g h) (f i)) xs acc)"
proof (induction xs arbitrary: acc)
  case Nil
  then show ?case by simp
next
  case (Cons x xs)
  obtain h i where x: "x = (h, i)" by (cases x)
  have "''__proto__'' \<notin> fst ` set (assign (g h) (f i) acc)"
    using Cons.prems by (rule assign_no_proto)
  from Cons.IH [OF this] x show ?case by simp
qed

lemma make_row_no_proto: "''__proto__'' \<notin> fst ` set (make_row hdrs vals)"
  unfolding make_row_def by (rule fold_assign_no_proto) simp

lemma fold_update_append:
  assumes "distinct (map fst ps)" and "fst ` set ps \<inter> fst ` set acc = {}"
  shows "fold (\<lambda>(k, v). AList.update k v) ps acc = acc @ ps"
  using assms
proof (induction ps arbitrary: acc)
  case Nil
  then show ?case by simp
next
  case (Cons p ps)
  obtain k v where p: "p = (k, v)" by (cases p)
  from Cons.prems p have k: "k \<notin> fst ` set acc" by auto
  have u: "AList.update k v acc = acc @ [(k, v)]"
    using k by (induction acc) auto
  have "fold (\<lambda>(k, v). AList.update k v) ps (acc @ [(k, v)]) = (acc @ [(k, v)]) @ ps"
    using Cons.prems p by (intro Cons.IH) auto
  with p u show ?case by simp
qed

lemma make_row_zip:
  assumes "distinct hs" and "\<forall>h \<in> set hs. cleanKey h = h" and "length vals = length hs"
    and "''__proto__'' \<notin> set hs"
  shows "make_row hs vals = zip hs vals"
proof -
  have m: "map (\<lambda>(h, i). (cleanKey h, cell_or_empty vals i)) (zip hs [0 ..< length hs]) = zip hs vals"
    using assms(2,3) by (intro nth_equalityI) (auto simp: cell_or_empty_def)
  have "\<forall>(h, i) \<in> set (zip hs [0 ..< length hs]). cleanKey h \<noteq> ''__proto__''"
    using assms(2,4) by (auto dest: set_zip_leftD)
  then have "fold (\<lambda>(h, i). assign (cleanKey h) (cell_or_empty vals i)) (zip hs [0 ..< length hs]) [] =
      fold (\<lambda>(h, i). AList.update (cleanKey h) (cell_or_empty vals i)) (zip hs [0 ..< length hs]) []"
    by (intro fold_cong) (auto simp: assign_def fun_eq_iff)
  then have "make_row hs vals =
      fold (\<lambda>(k, v). AList.update k v)
        (map (\<lambda>(h, i). (cleanKey h, cell_or_empty vals i)) (zip hs [0 ..< length hs])) []"
    by (simp add: make_row_def fold_map comp_def case_prod_unfold)
  also have "\<dots> = fold (\<lambda>(k, v). AList.update k v) (zip hs vals) []" by (simp only: m)
  also have "\<dots> = [] @ zip hs vals"
    using assms(1,3) by (intro fold_update_append) simp_all
  finally show ?thesis by simp
qed

lemma key_order_idem: "key_order (key_order ks) = key_order ks"
proof -
  define A where "A = sort_key index_of_digits (filter is_array_index ks)"
  define B where "B = filter (\<lambda>k. \<not> is_array_index k) ks"
  have k: "key_order ks = A @ B" by (simp add: key_order_def A_def B_def)
  have a: "filter is_array_index A = A" unfolding A_def by (intro filter_True) auto
  have a': "filter (\<lambda>k. \<not> is_array_index k) A = []" unfolding A_def by auto
  have b: "filter is_array_index B = []" unfolding B_def by auto
  have b': "filter (\<lambda>k. \<not> is_array_index k) B = B" unfolding B_def by auto
  have s: "sort_key index_of_digits A = A"
    unfolding A_def by (intro sort_key_id_if_sorted) simp
  show ?thesis unfolding k by (simp add: key_order_def [of "A @ B"] a a' b b' s)
qed

lemma own_keys_zip:
  assumes "hs = own_keys ob" and "length vals = length hs"
  shows "own_keys (zip hs vals) = hs"
proof -
  have d: "distinct (map fst (zip hs vals))" using assms by (simp add: distinct_own_keys)
  have "own_keys (zip hs vals) = key_order hs"
    using assms(2) by (simp add: own_keys_def first_keys_distinct [OF d])
  also have "\<dots> = hs" using assms(1) by (simp add: own_keys_def key_order_idem)
  finally show ?thesis .
qed

lemma entries_zip:
  assumes "hs = own_keys ob"
  shows "entries (zip hs (map (\<lambda>h. the (map_of ob h)) hs)) = entries ob"
proof -
  have k: "own_keys (zip hs (map (\<lambda>h. the (map_of ob h)) hs)) = hs"
    using assms by (intro own_keys_zip) simp_all
  have "\<forall>h \<in> set hs. map_of (zip hs (map (\<lambda>h. the (map_of ob h)) hs)) h = Some (the (map_of ob h))"
    by (simp add: map_of_zip_map)
  then have "map (\<lambda>h. (h, the (map_of (zip hs (map (\<lambda>h. the (map_of ob h)) hs)) h))) hs =
      map (\<lambda>h. (h, the (map_of ob h))) hs"
    by simp
  then show ?thesis unfolding entries_def k using assms by simp
qed

lemma first_keys_as_cells: "first_keys (as_cells ob) = first_keys ob"
  by (induction ob) (auto simp: as_cells_def)

lemma own_keys_as_cells: "own_keys (as_cells ob) = own_keys ob"
  by (simp add: own_keys_def first_keys_as_cells)

lemma map_of_as_cells: "map_of (as_cells ob) k = map_option CStr (map_of ob k)"
  by (induction ob) (auto simp: as_cells_def)

subsection \<open>Export and import again\<close>

lemma join_no_char:
  assumes "c \<notin> set sep" and "\<forall>x \<in> set xs. c \<notin> set x"
  shows "c \<notin> set (join sep xs)"
  using assms by (induction sep xs rule: join.induct) auto

lemma escapeCsv_no_newline:
  assumes "CHR 0x22 \<notin> set v" and "CHR 0x0A \<notin> set v"
  shows "CHR 0x0A \<notin> set (escapeCsv (Some (CStr v)))"
  using assms by (simp add: escapeCsv_plain)

lemma parseCSV_shape:
  assumes "parseCSV text \<noteq> []"
  obtains first rest where
    "filter (\<lambda>l. trim l \<noteq> []) (split (CHR 0x0A) text) = first # rest"
    "parseCSV text = map (\<lambda>line. make_row (parseLine first) (parseLine line)) rest"
  using assms by (auto simp: parseCSV_def Let_def split: list.splits)

lemma filtered_line_no_newline:
  assumes "filter (\<lambda>l. trim l \<noteq> []) (split (CHR 0x0A) text) = ls" and "l \<in> set ls"
  shows "CHR 0x0A \<notin> set l"
proof -
  from assms have "l \<in> set (split (CHR 0x0A) text)" by auto
  then show ?thesis by (rule split_no_sep)
qed

lemma parsed_row_entry:
  assumes "CHR 0x0A \<notin> set first" and "CHR 0x0A \<notin> set line"
    and "(k, v) \<in> set (make_row (parseLine first) (parseLine line))"
  shows "(CHR 0x22 \<notin> set k \<and> trim k = k \<and> CHR 0x0A \<notin> set k) \<and>
         (CHR 0x22 \<notin> set v \<and> trim v = v \<and> CHR 0x0A \<notin> set v)"
proof -
  from make_row_entry [OF assms(3)] obtain h where
    h: "h \<in> set (parseLine first)" "k = cleanKey h" and
    v: "v \<in> set (parseLine line) \<or> v = []" by auto
  from parseLine_clean [OF assms(1) h(1)]
  have hc: "CHR 0x22 \<notin> set h" "trim h = h" "CHR 0x0A \<notin> set h" by simp_all
  then have "k = h" using h(2) by (simp add: cleanKey_plain)
  moreover have "CHR 0x22 \<notin> set v \<and> trim v = v \<and> CHR 0x0A \<notin> set v"
  proof (cases "v = []")
    case True
    then show ?thesis by (simp add: trim_def)
  next
    case False
    with v have "v \<in> set (parseLine line)" by simp
    from parseLine_clean [OF assms(2) this] show ?thesis .
  qed
  ultimately show ?thesis using hc by simp
qed

lemma the_map_of_entry:
  assumes "k \<in> set (own_keys ob)"
  shows "(k, the (map_of ob k)) \<in> set ob"
proof -
  from assms have "k \<in> fst ` set ob" by (simp add: set_own_keys)
  then obtain v where "map_of ob k = Some v"
    by (metis domD dom_map_of_conv_image_fst)
  then show ?thesis by (simp add: map_of_SomeD)
qed

lemma reparse_row:
  assumes hs: "hs = own_keys ob" 
    and ks: "\<forall>k \<in> set hs. cleanKey k = k"
    and vs: "\<forall>(k, v) \<in> set ob. CHR 0x22 \<notin> set v \<and> trim v = v \<and> CHR 0x0A \<notin> set v"
    and ne: "hs \<noteq> []" and np: "''__proto__'' \<notin> set hs"
  shows "entries (make_row hs
           (parseLine (join '','' (map (\<lambda>h. escapeCsv (map_of (as_cells ob) h)) hs)))) = entries ob"
proof -
  define vals where "vals = map (\<lambda>h. the (map_of ob h)) hs"
  have e: "map (\<lambda>h. escapeCsv (map_of (as_cells ob) h)) hs =
           map (\<lambda>v. escapeCsv (Some (CStr v))) vals"
  proof -
    have "\<forall>h \<in> set hs. map_of (as_cells ob) h = Some (CStr (the (map_of ob h)))"
    proof
      fix h assume "h \<in> set hs"
      then have "h \<in> fst ` set ob" using hs by (simp add: set_own_keys)
      then obtain v where "map_of ob h = Some v"
        by (metis domD dom_map_of_conv_image_fst)
      then show "map_of (as_cells ob) h = Some (CStr (the (map_of ob h)))"
        by (simp add: map_of_as_cells)
    qed
    then show ?thesis by (simp add: vals_def)
  qed
  have c: "\<forall>v \<in> set vals. CHR 0x22 \<notin> set v \<and> CHR 0x0A \<notin> set v \<and> trim v = v"
  proof
    fix v assume "v \<in> set vals"
    then obtain h where "h \<in> set hs" "v = the (map_of ob h)" by (auto simp: vals_def)
    then have "(h, v) \<in> set ob" using hs the_map_of_entry by simp
    with vs show "CHR 0x22 \<notin> set v \<and> CHR 0x0A \<notin> set v \<and> trim v = v" by auto
  qed
  have n: "vals \<noteq> []" using ne by (simp add: vals_def)
  have p: "parseLine (join '','' (map (\<lambda>v. escapeCsv (Some (CStr v))) vals)) = vals"
    using n c by (rule parseLine_cells)
  have d: "distinct hs" using hs by (simp add: distinct_own_keys)
  have z: "make_row hs vals = zip hs vals"
    using d ks by (rule make_row_zip) (simp_all add: vals_def np)
  have "entries (make_row hs
           (parseLine (join '','' (map (\<lambda>h. escapeCsv (map_of (as_cells ob) h)) hs)))) =
        entries (zip hs vals)"
    by (simp only: e p z)
  also have "\<dots> = entries ob" unfolding vals_def by (rule entries_zip [OF hs])
  finally show ?thesis .
qed

text \<open>
  C1, as amended. Take the rows that \<open>parseCSV\<close> makes of a text, at least one.
  If no column name holds a comma and no line of the exported text is blank,
  that is, empty or made of white space only, then the import of the export
  gives the same rows: each row has the same keys in the same order of
  enumeration and the same cell values. A cell that holds a comma is among
  them.
\<close>

theorem csv_round_trip:
  assumes rows: "rows = parseCSV text" and ne: "rows \<noteq> []"
    and keys: "\<forall>k \<in> set (own_keys (hd rows)). CHR '','' \<notin> set k"
    and lines: "\<forall>l \<in> set (csv_lines (map as_cells rows)). trim l \<noteq> []"
  shows "map entries (parseCSV (csvContent (map as_cells rows))) = map entries rows"
proof -
  from ne rows obtain first rest where
    f: "filter (\<lambda>l. trim l \<noteq> []) (split (CHR 0x0A) text) = first # rest" and
    r: "rows = map (\<lambda>line. make_row (parseLine first) (parseLine line)) rest"
    using parseCSV_shape [of "text"] by metis
  define hdrs where "hdrs = parseLine first"
  define hs where "hs = own_keys (hd rows)"
  have nf: "CHR 0x0A \<notin> set first"
    using filtered_line_no_newline [OF f] by simp
  have nr: "\<forall>l \<in> set rest. CHR 0x0A \<notin> set l"
    using filtered_line_no_newline [OF f] by simp
  have rne: "rest \<noteq> []" using ne r by simp
  have row_keys: "\<forall>ob \<in> set rows. own_keys ob = hs"
  proof
    fix ob assume "ob \<in> set rows"
    then obtain l where "ob = make_row hdrs (parseLine l)" using r by (auto simp: hdrs_def)
    moreover have "hd rows = make_row hdrs (parseLine (hd rest))"
      using r rne by (simp add: hd_map hdrs_def)
    ultimately show "own_keys ob = hs"
      unfolding hs_def using own_keys_make_row by metis
  qed
  have entry: "\<forall>ob \<in> set rows. \<forall>(k, v) \<in> set ob.
      (CHR 0x22 \<notin> set k \<and> trim k = k \<and> CHR 0x0A \<notin> set k) \<and>
      (CHR 0x22 \<notin> set v \<and> trim v = v \<and> CHR 0x0A \<notin> set v)"
  proof (intro ballI)
    fix ob x assume ob: "ob \<in> set rows" and x: "x \<in> set ob"
    obtain k v where kv: "x = (k, v)" by (cases x)
    from ob r obtain l where l: "l \<in> set rest" "ob = make_row (parseLine first) (parseLine l)"
      by auto
    from parsed_row_entry [OF nf, of l k v] nr l x kv
    show "case x of (k, v) \<Rightarrow>
      (CHR 0x22 \<notin> set k \<and> trim k = k \<and> CHR 0x0A \<notin> set k) \<and>
      (CHR 0x22 \<notin> set v \<and> trim v = v \<and> CHR 0x0A \<notin> set v)" by simp
  qed
  have hd_in: "hd rows \<in> set rows" using ne by simp
  have hs_clean: "\<forall>k \<in> set hs. CHR 0x22 \<notin> set k \<and> trim k = k \<and> CHR 0x0A \<notin> set k"
  proof
    fix k assume "k \<in> set hs"
    then have "k \<in> fst ` set (hd rows)" by (simp add: hs_def set_own_keys)
    then obtain v where "(k, v) \<in> set (hd rows)" by auto
    with entry hd_in show "CHR 0x22 \<notin> set k \<and> trim k = k \<and> CHR 0x0A \<notin> set k" by fastforce
  qed
  have hs_key: "\<forall>k \<in> set hs. cleanKey k = k"
    using hs_clean by (simp add: cleanKey_plain)
  have hs_np: "''__proto__'' \<notin> set hs"
  proof -
    have "hd rows = make_row hdrs (parseLine (hd rest))"
      using r rne by (simp add: hd_map hdrs_def)
    then show ?thesis using make_row_no_proto by (simp add: hs_def set_own_keys)
  qed
  define line_of where
    "line_of = (\<lambda>ob. join '','' (map (\<lambda>h. escapeCsv (map_of (as_cells ob) h)) hs))"
  have cl: "csv_lines (map as_cells rows) = join '','' hs # map line_of rows"
    using ne by (simp add: csv_lines_def Let_def hd_map own_keys_as_cells hs_def line_of_def
        comp_def)
  have hs_ne: "hs \<noteq> []"
  proof
    assume "hs = []"
    then have "trim (join '','' hs) = []" by (simp add: trim_def)
    with lines cl show False by simp
  qed
  have no_nl: "\<forall>l \<in> set (csv_lines (map as_cells rows)). CHR 0x0A \<notin> set l"
  proof -
    have "CHR 0x0A \<notin> set (join '','' hs)"
      using hs_clean by (intro join_no_char) simp_all
    moreover have "\<forall>ob \<in> set rows. CHR 0x0A \<notin> set (line_of ob)"
    proof
      fix ob assume ob: "ob \<in> set rows"
      have "\<forall>h \<in> set hs. CHR 0x0A \<notin> set (escapeCsv (map_of (as_cells ob) h))"
      proof
        fix h assume "h \<in> set hs"
        then have "h \<in> set (own_keys ob)" using row_keys ob by simp
        then have m: "(h, the (map_of ob h)) \<in> set ob" by (rule the_map_of_entry)
        then have "map_of ob h = Some (the (map_of ob h))"
          by (metis domD dom_map_of_conv_image_fst image_eqI fst_conv option.sel)
        then have "map_of (as_cells ob) h = Some (CStr (the (map_of ob h)))"
          by (simp add: map_of_as_cells)
        moreover from entry ob m
        have "CHR 0x22 \<notin> set (the (map_of ob h)) \<and> CHR 0x0A \<notin> set (the (map_of ob h))"
          by fastforce
        ultimately show "CHR 0x0A \<notin> set (escapeCsv (map_of (as_cells ob) h))"
          by (simp add: escapeCsv_no_newline)
      qed
      then show "CHR 0x0A \<notin> set (line_of ob)"
        unfolding line_of_def by (intro join_no_char) simp_all
    qed
    ultimately show ?thesis by (simp add: cl)
  qed
  have sp: "split (CHR 0x0A) (csvContent (map as_cells rows)) = csv_lines (map as_cells rows)"
    unfolding csvContent_def using no_nl by (intro split_join) (simp_all add: cl)
  have fl: "filter (\<lambda>l. trim l \<noteq> []) (csv_lines (map as_cells rows)) =
      csv_lines (map as_cells rows)"
    using lines by (intro filter_True) simp
  have ph: "parseLine (join '','' hs) = hs"
    using hs_ne hs_clean keys by (intro parseLine_keys) (simp_all add: hs_def)
  have "filter (\<lambda>l. trim l \<noteq> []) (split (CHR 0x0A) (csvContent (map as_cells rows))) =
      join '','' hs # map line_of rows"
    using fl by (simp only: sp cl)
  then have "parseCSV (csvContent (map as_cells rows)) =
      map (\<lambda>ob. make_row hs (parseLine (line_of ob))) rows"
    by (simp add: parseCSV_def ph comp_def)
  moreover have "\<forall>ob \<in> set rows. entries (make_row hs (parseLine (line_of ob))) = entries ob"
  proof
    fix ob assume ob: "ob \<in> set rows"
    have 1: "hs = own_keys ob" using row_keys ob by simp
    have 2: "\<forall>(k, v) \<in> set ob. CHR 0x22 \<notin> set v \<and> trim v = v \<and> CHR 0x0A \<notin> set v"
      using entry ob by fastforce
    show "entries (make_row hs (parseLine (line_of ob))) = entries ob"
      unfolding line_of_def using 1 hs_key 2 hs_ne hs_np by (rule reparse_row)
  qed
  ultimately show ?thesis by simp
qed

theorem csv_round_trip_witness:
  "parseCSV sample_csv =
     [[(''b'', ''x,y''), (''10'', ''2''), (''a'', ''''), (''9'', ''4'')],
      [(''b'', ''p''), (''10'', ''''), (''a'', ''''), (''9'', '''')]] \<and>
   csvContent (map as_cells (parseCSV sample_csv)) =
     ''9,10,b,a'' @ [CHR 0x0A] @ ''4,2,'' @ [CHR 0x22] @ ''x,y'' @ [CHR 0x22] @ '','' @ [CHR 0x0A] @ '',,p,'' \<and>
   map entries (parseCSV (csvContent (map as_cells (parseCSV sample_csv)))) =
     [[(''9'', ''4''), (''10'', ''2''), (''b'', ''x,y''), (''a'', '''')],
      [(''9'', ''''), (''10'', ''''), (''b'', ''p''), (''a'', '''')]]"
proof -
  have p: "parseCSV sample_csv =
     [[(''b'', ''x,y''), (''10'', ''2''), (''a'', ''''), (''9'', ''4'')],
      [(''b'', ''p''), (''10'', ''''), (''a'', ''''), (''9'', '''')]]"
    unfolding sample_csv_def by code_simp
  have ne: "parseCSV sample_csv \<noteq> []" by (simp add: p)
  have k: "own_keys (hd (parseCSV sample_csv)) = [''9'', ''10'', ''b'', ''a'']"
    unfolding p by code_simp
  have keys: "\<forall>k \<in> set (own_keys (hd (parseCSV sample_csv))). CHR '','' \<notin> set k"
    unfolding k by simp
  have l: "csv_lines (map as_cells (parseCSV sample_csv)) =
     [''9,10,b,a'', ''4,2,'' @ [CHR 0x22] @ ''x,y'' @ [CHR 0x22] @ '','', '',,p,'']"
    unfolding p by code_simp
  have t: "trim ''9,10,b,a'' \<noteq> []" "trim (''4,2,'' @ [CHR 0x22] @ ''x,y'' @ [CHR 0x22] @ '','') \<noteq> []"
    "trim '',,p,'' \<noteq> []"
    by code_simp+
  have lines: "\<forall>l \<in> set (csv_lines (map as_cells (parseCSV sample_csv))). trim l \<noteq> []"
    unfolding l using t by simp
  have e: "map entries (parseCSV sample_csv) =
     [[(''9'', ''4''), (''10'', ''2''), (''b'', ''x,y''), (''a'', '''')],
      [(''9'', ''''), (''10'', ''''), (''b'', ''p''), (''a'', '''')]]"
    unfolding p by code_simp
  have c: "csvContent (map as_cells (parseCSV sample_csv)) =
     ''9,10,b,a'' @ [CHR 0x0A] @ ''4,2,'' @ [CHR 0x22] @ ''x,y'' @ [CHR 0x22] @ '','' @ [CHR 0x0A] @ '',,p,''"
    unfolding csvContent_def l by simp
  from csv_round_trip [OF refl ne keys lines] e p c show ?thesis by simp
qed

text \<open>
  C1, as stated, fails in three ways. The text is split into lines before any
  quote is looked at, and blank lines are dropped: a row whose only cell is
  empty is exported as a blank line and does not come back, and a quoted cell
  that holds a newline is read as two rows, so that no cell holds a newline
  after the first import or after the cycle. A column name that holds a comma is
  exported without quotes and comes back as two columns.
\<close>

theorem csv_round_trip_fails:
  "parseCSV empty_cell_csv = [[(''a'', '''')], [(''a'', ''x'')]] \<and>
   parseCSV (csvContent (map as_cells (parseCSV empty_cell_csv))) = [[(''a'', ''x'')]] \<and>
   parseCSV newline_cell_csv = [[(''h'', ''a'')], [(''h'', ''b'')]] \<and>
   parseCSV (csvContent (map as_cells (parseCSV newline_cell_csv))) =
     [[(''h'', ''a'')], [(''h'', ''b'')]] \<and>
   parseCSV comma_header_csv = [[(''a,b'', ''1'')]] \<and>
   parseCSV (csvContent (map as_cells (parseCSV comma_header_csv))) = [[(''a'', ''1''), (''b'', '''')]]"
proof -
  have 1: "parseCSV empty_cell_csv = [[(''a'', '''')], [(''a'', ''x'')]]"
    unfolding empty_cell_csv_def by code_simp
  have 2: "parseCSV (csvContent (map as_cells [[(''a'', '''')], [(''a'', ''x'')]])) = [[(''a'', ''x'')]]"
    by code_simp
  have 3: "parseCSV comma_header_csv = [[(''a,b'', ''1'')]]"
    unfolding comma_header_csv_def by code_simp
  have 4: "parseCSV (csvContent (map as_cells [[(''a,b'', ''1'')]])) = [[(''a'', ''1''), (''b'', '''')]]"
    by code_simp
  have 5: "parseCSV newline_cell_csv = [[(''h'', ''a'')], [(''h'', ''b'')]]"
    unfolding newline_cell_csv_def by code_simp
  have 6: "parseCSV (csvContent (map as_cells [[(''h'', ''a'')], [(''h'', ''b'')]])) =
      [[(''h'', ''a'')], [(''h'', ''b'')]]"
    by code_simp
  show ?thesis by (simp only: 1 2 3 4 5 6)
qed

section \<open>Properties of the request\<close>

text \<open>
  A path parameter named after a function of \<open>Object.prototype\<close>: when the values
  do not own the name, \<open>replace\<close> calls the inherited function, and \<open>valueOf\<close>
  throws. The exception is raised before the \<open>try\<close> and leaves
  \<open>executeRequest\<close>.
\<close>

lemma inherited_function_raises:
  "executeRequest eng fetch example_config value_of_endpoint [(''name'', ''Ann'')] =
     Inl (TypeError (To_object ''Object.prototype.valueOf'')) \<and>
   path_url eng example_config value_of_endpoint [(''valueOf'', ''7'')] =
     Inr ''https://api.example.com/items/7'' \<and>
   executeRequest eng fetch example_config value_of_endpoint [(''valueOf'', ''7'')] =
     Inr (settle eng (fetch \<lparr>opt_method = ''GET'',
                              opt_headers = [(''Content-Type'', ''application/json'')],
                              opt_body = None\<rparr>))"
proof -
  have 1: "request_options eng example_config value_of_endpoint [(''name'', ''Ann'')] =
      Inl (TypeError (To_object ''Object.prototype.valueOf''))"
    unfolding example_config_def value_of_endpoint_def by code_simp
  have 2: "path_url eng example_config value_of_endpoint [(''valueOf'', ''7'')] =
      Inr ''https://api.example.com/items/7''"
    unfolding example_config_def value_of_endpoint_def by code_simp
  have 3: "request_options eng example_config value_of_endpoint [(''valueOf'', ''7'')] =
      Inr \<lparr>opt_method = ''GET'', opt_headers = [(''Content-Type'', ''application/json'')],
           opt_body = None\<rparr>"
    unfolding example_config_def value_of_endpoint_def by code_simp
  show ?thesis using 1 2 3 by (simp add: executeRequest_def bind_def)
qed

text \<open>
  C3. An endpoint whose method is POST and that declares a request-body schema is
  to be sent with a body. The catalog admits the method key \<open>POST\<close>, and the
  request is sent with the method \<open>POST\<close>, but the test for the body compares
  the key as written with \<open>post\<close>, \<open>put\<close> and \<open>patch\<close>: no body is attached.
\<close>

theorem uppercase_post_has_no_body:
  "build_endpoints upper_post_document = Inr [upper_post_endpoint] \<and>
   request_options eng cfg upper_post_endpoint [(''name'', ''Ann'')] =
     Inr \<lparr>opt_method = ''POST'', opt_headers = request_headers cfg, opt_body = None\<rparr> \<and>
   request_options eng cfg (upper_post_endpoint\<lparr>method' := ''post''\<rparr>) [(''name'', ''Ann'')] =
     Inr \<lparr>opt_method = ''POST'', opt_headers = request_headers cfg,
          opt_body = Some [(''name'', ''Ann'')]\<rparr>"
proof -
  have "build_endpoints upper_post_document = Inr [upper_post_endpoint]"
    unfolding upper_post_document_def upper_post_endpoint_def schema_of_name_def by code_simp
  moreover have "request_options eng cfg upper_post_endpoint [(''name'', ''Ann'')] =
      Inr \<lparr>opt_method = ''POST'', opt_headers = request_headers cfg, opt_body = None\<rparr>"
  proof -
    have u: "toUpperCase ''POST'' = ''POST''" by code_simp
    show ?thesis
      unfolding upper_post_endpoint_def
      by (simp add: request_options_def request_body_def path_url_def query_parameters_def
          forEach_parameter_def bind_def u Let_def)
  qed
  moreover have "request_options eng cfg (upper_post_endpoint\<lparr>method' := ''post''\<rparr>) [(''name'', ''Ann'')] =
      Inr \<lparr>opt_method = ''POST'', opt_headers = request_headers cfg,
           opt_body = Some [(''name'', ''Ann'')]\<rparr>"
  proof -
    have b: "request_body (upper_post_endpoint\<lparr>method' := ''post''\<rparr>) [(''name'', ''Ann'')] =
        Inr (Some [(''name'', ''Ann'')])"
      unfolding upper_post_endpoint_def schema_of_name_def by code_simp
    have u: "toUpperCase ''post'' = ''POST''" by code_simp
    have p: "forEach_parameter (JArr []) f d = f []" for f :: "json list \<Rightarrow> js_error + 'a" and d
      by (simp add: forEach_parameter_def)
    show ?thesis
      using b by (simp add: request_options_def path_url_def query_parameters_def bind_def
          upper_post_endpoint_def u p Let_def)
  qed
  ultimately show ?thesis by blast
qed

lemma map_of_assign:
  "map_of (assign k v al) k' =
     (if k' = k \<and> (k \<noteq> ''__proto__'' \<or> map_of al k \<noteq> None) then Some v else map_of al k')"
  by (auto simp: assign_def update_conv')

lemma map_of_bodyData_aux:
  assumes "map_of acc0 ''__proto__'' = None"
  shows "map_of (fold (\<lambda>k acc. if P k then assign k (f k) acc else acc) ks acc0) k =
           (if k \<in> set ks \<and> P k \<and> k \<noteq> ''__proto__'' then Some (f k) else map_of acc0 k)"
  using assms
proof (induction ks arbitrary: acc0)
  case Nil
  then show ?case by simp
next
  case (Cons x ks)
  define acc1 where "acc1 = (if P x then assign x (f x) acc0 else acc0)"
  have n: "map_of acc1 ''__proto__'' = None"
    using Cons.prems by (auto simp: acc1_def map_of_assign)
  have "map_of (fold (\<lambda>k acc. if P k then assign k (f k) acc else acc) (x # ks) acc0) k =
        map_of (fold (\<lambda>k acc. if P k then assign k (f k) acc else acc) ks acc1) k"
    by (simp add: acc1_def)
  also have "\<dots> = (if k \<in> set ks \<and> P k \<and> k \<noteq> ''__proto__'' then Some (f k) else map_of acc1 k)"
    by (rule Cons.IH [OF n])
  also have "\<dots> = (if k \<in> set (x # ks) \<and> P k \<and> k \<noteq> ''__proto__'' then Some (f k)
                     else map_of acc0 k)"
    using Cons.prems by (auto simp: acc1_def map_of_assign)
  finally show ?case .
qed

lemma map_of_the: "k \<in> fst ` set ob \<Longrightarrow> Some (the (map_of ob k)) = map_of ob k"
  by (metis domIff dom_map_of_conv_image_fst option.collapse)

lemma map_of_bodyData:
  "map_of (bodyData names fs input) k =
     (if k \<noteq> ''__proto__'' \<and> JStr k \<notin> set names \<and> (fs = [] \<or> k \<in> set fs)
      then map_of input k else None)"
proof (cases "k \<in> fst ` set input")
  case True
  then show ?thesis
    by (simp add: bodyData_def map_of_bodyData_aux set_own_keys map_of_the)
next
  case False
  then have "map_of input k = None" by (simp add: map_of_eq_None_iff)
  with False show ?thesis
    by (simp add: bodyData_def map_of_bodyData_aux set_own_keys)
qed

text \<open>
  C4, as amended. When a body is attached, it holds exactly the keys of the
  values that are not the name of any parameter of the endpoint, whatever its
  location, that are among the resolved body fields or, when no field was
  resolved, any such key, and that are not \<open>__proto__\<close>, which an assignment
  does not create; each with its value. The witness is the case of the fields
  \<open>name\<close> and \<open>age\<close> and the values \<open>name\<close>, \<open>age\<close> and \<open>id\<close>, with \<open>id\<close> a path
  parameter.
\<close>

theorem body_key_selection:
  assumes "request_body ep input = Inr (Some b)"
  shows "\<exists>names fs. parameter_names (parameters ep) = Inr names \<and> bodyFields ep = Inr fs \<and>
           (\<forall>k. map_of b k =
              (if k \<noteq> ''__proto__'' \<and> JStr k \<notin> set names \<and> (fs = [] \<or> k \<in> set fs)
               then map_of input k else None))"
  using assms
  by (auto simp: request_body_def bind_Inr_iff map_of_bodyData split: if_splits)

theorem body_key_selection_witness:
  "request_body update_user_endpoint [(''name'', ''Ann''), (''age'', ''30''), (''id'', ''7'')] =
     Inr (Some [(''name'', ''Ann''), (''age'', ''30'')]) \<and>
   parameter_names (parameters update_user_endpoint) = Inr [JStr ''id''] \<and>
   bodyFields update_user_endpoint = Inr [''name'', ''age''] \<and>
   map_of [(''name'', ''Ann''), (''age'', ''30'')] ''id'' = None"
proof -
  have r: "request_body update_user_endpoint [(''name'', ''Ann''), (''age'', ''30''), (''id'', ''7'')] =
     Inr (Some [(''name'', ''Ann''), (''age'', ''30'')])"
    unfolding update_user_endpoint_def schema_of_def by code_simp
  have n: "parameter_names (parameters update_user_endpoint) = Inr [JStr ''id'']"
    unfolding update_user_endpoint_def by code_simp
  have f: "bodyFields update_user_endpoint = Inr [''name'', ''age'']"
    unfolding update_user_endpoint_def schema_of_def by code_simp
  from body_key_selection [OF r] n f
  have "map_of [(''name'', ''Ann''), (''age'', ''30'')] ''id'' = None" by simp
  with r n f show ?thesis by simp
qed

text \<open>
  C4, as stated, excludes only the names of path parameters. The code excludes
  the name of every parameter: the key \<open>q\<close> below is a query parameter and a
  field of the body schema, and it is left out of the body. It also leaves out
  the key \<open>__proto__\<close>, here with no parameter and no resolved field.
\<close>

theorem query_parameter_left_out_of_body:
  "request_body search_endpoint [(''name'', ''Ann''), (''q'', ''x'')] =
     Inr (Some [(''name'', ''Ann'')]) \<and>
   bodyFields search_endpoint = Inr [''name'', ''q''] \<and>
   JStr ''q'' \<notin> set (path_parameter_names (parameters search_endpoint)) \<and>
   map_of [(''name'', ''Ann''), (''q'', ''x'')] ''q'' = Some ''x'' \<and>
   bodyData [] [] [(''__proto__'', ''x''), (''name'', ''Ann'')] = [(''name'', ''Ann'')]"
proof -
  have r: "request_body search_endpoint [(''name'', ''Ann''), (''q'', ''x'')] =
     Inr (Some [(''name'', ''Ann'')])"
    unfolding search_endpoint_def schema_of_def by code_simp
  have f: "bodyFields search_endpoint = Inr [''name'', ''q'']"
    unfolding search_endpoint_def schema_of_def by code_simp
  have p: "path_parameter_names (parameters search_endpoint) = []"
    unfolding search_endpoint_def by (simp add: path_parameter_names_def member_of_def)
  have b: "bodyData [] [] [(''__proto__'', ''x''), (''name'', ''Ann'')] = [(''name'', ''Ann'')]"
    by code_simp
  show ?thesis using r f p b by simp
qed

section \<open>Properties of the outcome\<close>

lemma settle_rejected:
  "settle eng (Rejected m) =
     \<lparr>success = False, status = 0, time = 0, data = JStr m, isNetworkError = True\<rparr>"
  by (simp add: settle_def network_failure_def)

lemma settle_json_body:
  assumes "JSON_parse eng t = Inr v"
  shows "settle eng (Resolved \<lparr>res_status = s, res_body = Some t, bodyUsed = False\<rparr> ms) =
           \<lparr>success = (200 \<le> s \<and> s \<le> 299), status = s, time = ms, data = v,
            isNetworkError = False\<rparr>"
  using assms by (simp add: settle_def res_json_def consume_def ok_def)

lemma success_iff_status:
  "success (settle eng f) \<longleftrightarrow> 200 \<le> status (settle eng f) \<and> status (settle eng f) \<le> 299"
  by (auto simp: settle_def network_failure_def ok_def
      split: fetched.splits prod.splits sum.splits)

text \<open>
  C5. A response whose body is not JSON is to give the raw text as the body of
  the outcome. It does not: \<open>res.json()\<close> has read the body when it rejects, so
  the \<open>res.text()\<close> of the fallback rejects too, and the outer \<open>catch\<close> returns
  the outcome of a network failure, whatever the status of the response.
\<close>

theorem unparsable_body_is_network_failure:
  assumes "JSON_parse eng t = Inl m"
  shows "settle eng (Resolved \<lparr>res_status = s, res_body = Some t, bodyUsed = False\<rparr> ms) =
           network_failure (TypeError_message eng (Body_read ''text''))"
  using assms by (simp add: settle_def res_json_def res_text_def consume_def)

theorem unparsable_body_is_network_failure_witness:
  "JSON_parse example_engine ''OK'' = Inl ''Unexpected token'' \<and>
   settle example_engine
     (Resolved \<lparr>res_status = 200, res_body = Some ''OK'', bodyUsed = False\<rparr> 12) =
     \<lparr>success = False, status = 0, time = 0, data = JStr ''text: body already read'',
      isNetworkError = True\<rparr>"
proof -
  have h: "JSON_parse example_engine ''OK'' = Inl ''Unexpected token''"
    by (simp add: example_engine_def table_parser_def)
  show ?thesis
    using h unparsable_body_is_network_failure [OF h, of 200 12]
    by (simp add: network_failure_def example_engine_def)
qed

text \<open>
  C6. A call that receives a 404 is to give the status 404 with the
  transport-error flag unset. When the body of the 404 response is not JSON, the
  outcome has the status 0 and the flag set, by the defect of C5.
\<close>

theorem not_found_text_body_is_network_failure:
  assumes "JSON_parse eng t = Inl m"
  shows "status (settle eng (Resolved \<lparr>res_status = 404, res_body = Some t, bodyUsed = False\<rparr> ms)) = 0
       \<and> \<not> success (settle eng (Resolved \<lparr>res_status = 404, res_body = Some t, bodyUsed = False\<rparr> ms))
       \<and> isNetworkError (settle eng (Resolved \<lparr>res_status = 404, res_body = Some t, bodyUsed = False\<rparr> ms))"
  using assms
  by (simp add: settle_def res_json_def res_text_def consume_def network_failure_def)

theorem not_found_text_body_is_network_failure_witness:
  "JSON_parse example_engine ''Not Found'' = Inl ''Unexpected token'' \<and>
   status (settle example_engine
     (Resolved \<lparr>res_status = 404, res_body = Some ''Not Found'', bodyUsed = False\<rparr> 3)) = 0 \<and>
   isNetworkError (settle example_engine
     (Resolved \<lparr>res_status = 404, res_body = Some ''Not Found'', bodyUsed = False\<rparr> 3))"
proof -
  have h: "JSON_parse example_engine ''Not Found'' = Inl ''Unexpected token''"
    by (simp add: example_engine_def table_parser_def)
  show ?thesis
    using h not_found_text_body_is_network_failure [OF h, of 3] by simp
qed

section \<open>Properties of the numbers\<close>

text \<open>
  The rounding to a double is within half a unit in the last place: for a
  number in the normal range the relative error is at most \<open>2^-53\<close>. Two such
  roundings bring the computed percentage within \<open>2^-44\<close> of the exact one.
\<close>

lemma pow2_powi: "pow2 e = 2 powi e"
  by (simp add: pow2_def power_int_def inverse_eq_divide power_one_over)

lemma pow2_pos: "0 < pow2 e"
  by (simp add: pow2_powi)

lemma pow2_add: "pow2 (a + b) = pow2 a * pow2 b"
  by (simp add: pow2_powi power_int_add)

lemma pow2_mono: "a \<le> b \<Longrightarrow> pow2 a \<le> pow2 b"
  by (simp add: pow2_powi power_int_increasing)

lemma pow2_nat: "pow2 (int n) = 2 ^ n"
  by (simp add: pow2_powi)

lemma bit_length_bounds:
  "0 < a \<Longrightarrow> 1 \<le> bit_length a \<and> 2 ^ nat (bit_length a - 1) \<le> a \<and> a < 2 ^ nat (bit_length a)"
proof (induction a rule: bit_length.induct)
  case (1 a)
  show ?case
  proof (cases "a div 2 = 0")
    case True
    with 1 have a: "a = 1" by presburger
    have "bit_length 1 = 1" by (simp add: bit_length.simps)
    with a show ?thesis by simp
  next
    case False
    with 1 have p: "0 < a div 2" by presburger
    from 1 have an: "\<not> a \<le> 0" by simp
    from "1.IH" [OF an p] have
      l: "1 \<le> bit_length (a div 2)" and
      lo: "2 ^ nat (bit_length (a div 2) - 1) \<le> a div 2" and
      hi: "a div 2 < 2 ^ nat (bit_length (a div 2))" by simp_all
    have b: "bit_length a = 1 + bit_length (a div 2)"
      using an by (subst bit_length.simps) simp
    define m where "m = nat (bit_length (a div 2) - 1)"
    have n1: "nat (bit_length (a div 2)) = Suc m" using l by (simp add: m_def)
    have n2: "nat (bit_length a - 1) = Suc m" using l b by (simp add: m_def)
    have n3: "nat (bit_length a) = Suc (Suc m)" using l b by (simp add: m_def)
    from lo have lo': "(2::int) ^ m \<le> a div 2" by (simp add: m_def)
    from hi have hi': "a div 2 < (2::int) ^ Suc m" by (simp only: n1)
    have "2 * (a div 2) \<le> a" by presburger
    with lo' have A: "(2::int) ^ Suc m \<le> a" by simp
    have "a < 2 * (a div 2) + 2" by presburger
    moreover from hi' have "a div 2 + 1 \<le> (2::int) ^ Suc m" by simp
    ultimately have B: "a < (2::int) ^ Suc (Suc m)" by simp
    have C: "2 ^ nat (bit_length a - 1) \<le> a" using A by (simp only: n2)
    have D: "a < 2 ^ nat (bit_length a)" using B by (simp only: n3)
    have E: "1 \<le> bit_length a" using l b by simp
    from C D E show ?thesis by blast
  qed
qed

lemma bit_length_rat:
  assumes "0 < a"
  shows "pow2 (bit_length a - 1) \<le> of_int a" and "of_int a < pow2 (bit_length a)"
proof -
  from bit_length_bounds [OF assms] have
    l: "1 \<le> bit_length a" and lo: "2 ^ nat (bit_length a - 1) \<le> a"
    and hi: "a < 2 ^ nat (bit_length a)" by simp_all
  have "pow2 (bit_length a - 1) = 2 ^ nat (bit_length a - 1)" using l by (simp add: pow2_def)
  also have "\<dots> = of_int (2 ^ nat (bit_length a - 1))" by simp
  also have "\<dots> \<le> of_int a" using lo by (simp only: of_int_le_iff)
  finally show "pow2 (bit_length a - 1) \<le> of_int a" .
  have "(of_int a :: rat) < of_int (2 ^ nat (bit_length a))" using hi by (simp only: of_int_less_iff)
  also have "\<dots> = 2 ^ nat (bit_length a)" by simp
  also have "\<dots> = pow2 (bit_length a)" using l by (simp add: pow2_def)
  finally show "of_int a < pow2 (bit_length a)" .
qed

lemma pow2_diff: "pow2 (a - b) = pow2 a / pow2 b"
  by (simp add: pow2_powi power_int_diff)

lemma floor_log2_bounds:
  assumes "0 < q"
  shows "pow2 (floor_log2 q) \<le> q" and "q < pow2 (floor_log2 q + 1)"
proof -
  obtain a b where ab: "quotient_of q = (a, b)" by (cases "quotient_of q")
  then have b: "0 < b" by (rule quotient_of_denom_pos)
  from ab have q: "q = of_int a / of_int b" by (rule quotient_of_div)
  with assms b have a: "0 < a" by (simp add: zero_less_divide_iff)
  define d where "d = bit_length a - bit_length b"
  note A = bit_length_rat [OF a] and B = bit_length_rat [OF b]
  have bp: "(0::rat) < of_int b" using b by simp
  have up: "q < pow2 (d + 1)"
  proof -
    have "q < pow2 (bit_length a) / of_int b"
      unfolding q using A(2) bp by (simp add: divide_strict_right_mono)
    also have "\<dots> \<le> pow2 (bit_length a) / pow2 (bit_length b - 1)"
      using B(1) pow2_pos [of "bit_length a"] pow2_pos [of "bit_length b - 1"]
      by (intro divide_left_mono) simp_all
    also have "\<dots> = pow2 (bit_length a - (bit_length b - 1))" by (simp only: pow2_diff)
    also have "\<dots> = pow2 (d + 1)" by (simp add: d_def algebra_simps)
    finally show ?thesis .
  qed
  have lo: "pow2 (d - 1) < q"
  proof -
    have "pow2 (d - 1) = pow2 ((bit_length a - 1) - bit_length b)" by (simp add: d_def algebra_simps)
    also have "\<dots> = pow2 (bit_length a - 1) / pow2 (bit_length b)" by (simp only: pow2_diff)
    also have "\<dots> < pow2 (bit_length a - 1) / of_int b"
      using B(2) bp pow2_pos [of "bit_length a - 1"]
      by (intro divide_strict_left_mono) simp_all
    also have "\<dots> \<le> q"
      unfolding q using A(1) bp by (simp add: divide_right_mono)
    finally show ?thesis .
  qed
  have f: "floor_log2 q = (if pow2 d \<le> q then d else d - 1)"
    by (simp add: floor_log2_def ab d_def Let_def)
  show "pow2 (floor_log2 q) \<le> q"
    using lo by (simp add: f)
  show "q < pow2 (floor_log2 q + 1)"
    using up by (auto simp: f)
qed

lemma round_half_even_error: "\<bar>of_int (round_half_even m) - m\<bar> \<le> 1 / 2"
proof -
  define f where "f = \<lfloor>m\<rfloor>"
  have 1: "of_int f \<le> m" and 2: "m < of_int f + 1" by (simp_all add: f_def) linarith
  show ?thesis
    unfolding round_half_even_def Let_def f_def [symmetric]
    using 1 2 by (auto simp: abs_if split: if_splits) 
qed

lemma pow2_less_imp: "pow2 a \<le> q \<Longrightarrow> q < pow2 b \<Longrightarrow> a < b"
proof (rule ccontr)
  assume 1: "pow2 a \<le> q" and 2: "q < pow2 b" and "\<not> a < b"
  then have "pow2 b \<le> pow2 a" by (intro pow2_mono) simp
  with 1 2 show False by simp
qed

lemma double_of_error:
  assumes "0 < q" and "pow2 (- 1022) \<le> q"
  shows "\<bar>double_of q - q\<bar> \<le> q / 2 ^ 53"
proof -
  define e where "e = floor_log2 q"
  have lo: "pow2 e \<le> q" and hi: "q < pow2 (e + 1)"
    using floor_log2_bounds [OF assms(1)] by (simp_all add: e_def)
  from pow2_less_imp [OF assms(2) hi] have en: "- 1022 \<le> e" by simp
  define ulp where "ulp = pow2 (e - 52)"
  have up: "0 < ulp" by (simp add: ulp_def pow2_pos)
  define r where "r = round_half_even (q / ulp)"
  have d: "double_of q = of_int r * ulp"
    using assms(1) en by (simp add: double_of_def Let_def e_def [symmetric] ulp_def r_def max_def)
  have "\<bar>of_int r * ulp - q\<bar> = \<bar>of_int r - q / ulp\<bar> * ulp"
  proof -
    have "of_int r * ulp - q = (of_int r - q / ulp) * ulp" using up by (simp add: field_simps)
    then show ?thesis using up by (simp add: abs_mult)
  qed
  also have "\<dots> \<le> 1 / 2 * ulp"
    using round_half_even_error [of "q / ulp"] up
    by (intro mult_right_mono) (simp_all add: r_def)
  also have "\<dots> = pow2 e / 2 ^ 53"
  proof -
    have "ulp = pow2 e / pow2 52" by (simp only: ulp_def pow2_diff)
    moreover have "pow2 52 = 2 ^ 52" by (simp add: pow2_def)
    ultimately show ?thesis by simp
  qed
  also have "\<dots> \<le> q / 2 ^ 53" using lo by (simp add: divide_right_mono)
  finally show ?thesis by (simp only: d)
qed

lemma pow2_tiny: "pow2 (- 1022) \<le> 1 / 2 ^ 33"
proof -
  have "pow2 (- 1022) \<le> pow2 (- 33)" by (rule pow2_mono) simp
  also have "pow2 (- 33) = 1 / 2 ^ 33" by (simp add: pow2_def)
  finally show ?thesis .
qed

lemma percent_error:
  fixes q :: rat
  assumes lo: "1 / 2 ^ 32 \<le> q" and hi: "q \<le> 1"
  shows "\<bar>double_of (double_of q * 100) - q * 100\<bar> < 1 / 2 ^ 44"
proof -
  have qp: "0 < q" using lo by (rule less_le_trans [rotated]) simp
  have "pow2 (- 1022) \<le> 1 / 2 ^ 33" by (rule pow2_tiny)
  also have "\<dots> \<le> 1 / 2 ^ 32" by simp
  finally have q_big: "pow2 (- 1022) \<le> q" using lo by simp
  define x where "x = double_of q"
  have e1: "\<bar>x - q\<bar> \<le> q / 2 ^ 53"
    unfolding x_def by (rule double_of_error [OF qp q_big])
  have h: "q / 2 ^ 53 \<le> q / 2" using qp by simp
  have "q - x \<le> \<bar>x - q\<bar>" by simp
  also have "\<dots> \<le> q / 2" using e1 h by (rule order_trans)
  finally have x_lo: "q / 2 \<le> x" by simp
  have "x - q \<le> \<bar>x - q\<bar>" by simp
  also have "\<dots> \<le> q / 2" using e1 h by (rule order_trans)
  finally have x_hi: "x \<le> 2" using hi by simp
  define p where "p = x * 100"
  have pp: "0 < p" using x_lo qp by (simp add: p_def)
  have "1 / 2 ^ 33 \<le> q / 2" using lo by simp
  also have "\<dots> \<le> x" by (rule x_lo)
  also have "\<dots> \<le> p" using x_lo qp by (simp add: p_def)
  finally have "1 / 2 ^ 33 \<le> p" .
  with pow2_tiny have p_big: "pow2 (- 1022) \<le> p" by (rule order_trans)
  have e2: "\<bar>double_of p - p\<bar> \<le> p / 2 ^ 53" by (rule double_of_error [OF pp p_big])
  have p_hi: "p \<le> 200" using x_hi by (simp add: p_def)
  have "p / 2 ^ 53 \<le> 200 / 2 ^ 53" using p_hi by (rule divide_right_mono) simp
  with e2 have a: "\<bar>double_of p - p\<bar> \<le> 200 / 2 ^ 53" by (rule order_trans)
  have "p - q * 100 = (x - q) * 100" by (simp only: p_def left_diff_distrib)
  then have "\<bar>p - q * 100\<bar> = \<bar>x - q\<bar> * \<bar>100\<bar>" by (simp only: abs_mult)
  also have "\<dots> = \<bar>x - q\<bar> * 100" by simp
  also have "\<dots> \<le> q / 2 ^ 53 * 100" using e1 by (rule mult_right_mono) simp
  also have "\<dots> = q * 100 / 2 ^ 53" by simp
  also have "\<dots> \<le> 1 * 100 / 2 ^ 53"
    by (rule divide_right_mono, rule mult_right_mono, rule hi) simp_all
  finally have b: "\<bar>p - q * 100\<bar> \<le> 100 / 2 ^ 53" by simp
  have "double_of p - q * 100 = (double_of p - p) + (p - q * 100)" by simp
  then have "\<bar>double_of p - q * 100\<bar> = \<bar>(double_of p - p) + (p - q * 100)\<bar>" by (rule arg_cong)
  also have "\<dots> \<le> \<bar>double_of p - p\<bar> + \<bar>p - q * 100\<bar>" by (rule abs_triangle_ineq)
  also have "\<dots> \<le> 200 / 2 ^ 53 + 100 / 2 ^ 53" using a b by (rule add_mono)
  also have "\<dots> < 1 / 2 ^ 44" by simp
  finally show ?thesis by (simp only: p_def x_def)
qed

section \<open>Properties of the batch run\<close>

lemma progress_final: "0 < n \<Longrightarrow> progress (n - 1) n = 100"
proof -
  assume n: "0 < n"
  then have "n - 1 + 1 = n" by simp
  then have q: "(of_nat (n - 1 + 1) :: rat) / of_nat n = of_nat n / of_nat n" by (simp only:)
  have "(of_nat n :: rat) / of_nat n = 1" using n by simp
  with q have 1: "(of_nat (n - 1 + 1) :: rat) / of_nat n = 1" by (simp only:)
  have 2: "double_of 1 = 1" by code_simp
  have 3: "double_of 100 = 100" by code_simp
  have 4: "Math_round 100 = 100" by code_simp
  have "progress (n - 1) n = Math_round (double_of (double_of 1 * 100))"
    unfolding progress_def by (simp only: 1)
  also have "\<dots> = Math_round (double_of (1 * 100))" by (simp only: 2)
  also have "\<dots> = 100" using 3 4 by simp
  finally show ?thesis .
qed

text \<open>
  With fewer than \<open>2^32\<close> rows, the percentage published after row \<open>i + 1\<close> of
  \<open>n\<close> is the exact quotient \<open>100 * (i + 1) / n\<close> rounded to the nearest integer,
  whenever that quotient is not half way between two integers.
\<close>

lemma progress_rounds_percent:
  assumes n: "n < 2 ^ 32" and i: "i < n"
    and tie: "\<not> 2 * n dvd 200 * (i + 1) + n"
  shows "progress i n = (200 * int (i + 1) + int n) div (2 * int n)"
proof -
  define k where "k = i + 1"
  have k: "1 \<le> k" "k \<le> n" using i by (simp_all add: k_def)
  have np: "0 < n" using i by simp
  define q :: rat where "q = of_nat k / of_nat n"
  have hi: "q \<le> 1" using k np by (simp add: q_def)
  have "(1::rat) / 2 ^ 32 \<le> 1 / of_nat n"
  proof (rule divide_left_mono)
    have "(of_nat n :: rat) \<le> of_nat (2 ^ 32)" using n by (simp only: of_nat_le_iff)
    then show "(of_nat n :: rat) \<le> 2 ^ 32" by simp
  qed (use np in simp_all)
  also have "\<dots> \<le> q" unfolding q_def
    by (rule divide_right_mono) (use k in simp_all)
  finally have lo: "1 / 2 ^ 32 \<le> q" .
  define x where "x = double_of (double_of q * 100)"
  have err: "\<bar>x - q * 100\<bar> < 1 / 2 ^ 44"
    unfolding x_def by (rule percent_error [OF lo hi])
  define N :: int where "N = 200 * int k + int n"
  define D :: int where "D = 2 * int n"
  define t where "t = N div D"
  define r where "r = N mod D"
  have Dp: "0 < D" using np by (simp add: D_def)
  have "\<not> D dvd N"
  proof
    assume "D dvd N"
    then have "int (2 * n) dvd int (200 * (i + 1) + n)" by (simp add: D_def N_def k_def)
    then have "2 * n dvd 200 * (i + 1) + n" by (simp only: int_dvd_int_iff)
    with tie show False ..
  qed
  then have "r \<noteq> 0" by (simp add: r_def dvd_eq_mod_eq_0)
  moreover have "0 \<le> r" "r < D" using Dp by (simp_all add: r_def)
  ultimately have r: "1 \<le> r" "r \<le> D - 1" by simp_all
  have N: "N = D * t + r" by (simp add: t_def r_def)
  have Dr: "(0::rat) < of_int D" using Dp by simp
  have y: "q * 100 + 1 / 2 = of_int t + of_int r / of_int D"
  proof -
    have "q * 100 + 1 / 2 = of_int N / of_int D"
      using np by (simp add: q_def N_def D_def field_simps)
    also have "\<dots> = (of_int D * of_int t + of_int r) / of_int D" by (simp add: N)
    also have "\<dots> = of_int t + of_int r / of_int D" using Dr by (simp add: field_simps)
    finally show ?thesis .
  qed
  have Dsmall: "(of_int D :: rat) \<le> 2 ^ 44"
  proof -
    have "D \<le> 2 ^ 44" using n by (simp add: D_def)
    then have "(of_int D :: rat) \<le> of_int (2 ^ 44)" by (simp only: of_int_le_iff)
    then show ?thesis by simp
  qed
  have eps: "(1::rat) / 2 ^ 44 \<le> 1 / of_int D"
    by (rule divide_left_mono [OF Dsmall]) (use Dr in simp_all)
  have r_lo: "(1::rat) / of_int D \<le> of_int r / of_int D"
    by (rule divide_right_mono) (use r Dr in simp_all)
  have r_hi: "of_int r / of_int D \<le> (1::rat) - 1 / of_int D"
  proof -
    have "(of_int r :: rat) \<le> of_int (D - 1)" using r by (simp only: of_int_le_iff)
    then have "(of_int r :: rat) / of_int D \<le> of_int (D - 1) / of_int D"
      by (rule divide_right_mono) (use Dr in simp)
    also have "\<dots> = 1 - 1 / of_int D" using Dr by (simp add: field_simps)
    finally show ?thesis .
  qed
  have d: "\<bar>x - q * 100\<bar> < 1 / of_int D" using err eps by (rule less_le_trans)
  have lower: "of_int t \<le> x + 1 / 2"
  proof -
    have "q * 100 - x \<le> \<bar>x - q * 100\<bar>" by simp
    also have "\<dots> \<le> 1 / of_int D" using d by simp
    also have "\<dots> \<le> of_int r / of_int D" by (rule r_lo)
    finally have "q * 100 + 1 / 2 - of_int r / of_int D \<le> x + 1 / 2" by simp
    then show ?thesis by (simp add: y)
  qed
  have upper: "x + 1 / 2 < of_int t + 1"
  proof -
    have "x - q * 100 \<le> \<bar>x - q * 100\<bar>" by simp
    also have "\<dots> < 1 / of_int D" by (rule d)
    also have "\<dots> \<le> 1 - of_int r / of_int D" using r_hi by simp
    finally have "x + 1 / 2 < q * 100 + 1 / 2 + (1 - of_int r / of_int D)" by simp
    then show ?thesis by (simp add: y)
  qed
  have "\<lfloor>x + 1 / 2\<rfloor> = t" using lower upper by (rule floor_unique)
  then have "progress i n = t"
    by (simp only: progress_def Math_round_def x_def q_def k_def)
  then show ?thesis by (simp only: t_def N_def D_def k_def)
qed

lemma batch_loop_published:
  assumes "batch_loop eng fetch cfg ep n i rows results st = (None, pub, st')"
  shows "length pub = length rows \<and>
         (\<forall>j < length rows. snd (pub ! j) = progress (i + j) n \<and>
                             length (fst (pub ! j)) = length results + j + 1) \<and>
         (rows \<noteq> [] \<longrightarrow> batchResults st' = fst (last pub))"
  using assms
proof (induction rows arbitrary: i results st pub st')
  case Nil
  then show ?case by simp
next
  case (Cons row rows)
  from Cons.prems obtain result where
    r: "executeRequest eng (fetch i) cfg ep row = Inr result"
    by (cases "executeRequest eng (fetch i) cfg ep row") simp_all
  define results' where "results' = results @ [resultRow eng i row result]"
  define st1 where "st1 = st\<lparr>batchResults := results', batchProgress := progress i n\<rparr>"
  obtain err pub' st2 where
    l: "batch_loop eng fetch cfg ep n (i + 1) rows results' st1 = (err, pub', st2)"
    by (metis prod_cases3)
  have step: "batch_loop eng fetch cfg ep n i (row # rows) results st =
      (err, (results', progress i n) # pub', st2)"
    using r l by (simp add: results'_def st1_def Let_def)
  with Cons.prems have e: "err = None" and p: "pub = (results', progress i n) # pub'"
    and s: "st' = st2" by simp_all
  from l e have l': "batch_loop eng fetch cfg ep n (i + 1) rows results' st1 = (None, pub', st2)"
    by simp
  from Cons.IH [OF l'] have
    len: "length pub' = length rows" and
    nth: "\<forall>j < length rows. snd (pub' ! j) = progress (i + 1 + j) n \<and>
                             length (fst (pub' ! j)) = length results' + j + 1" and
    fin: "rows \<noteq> [] \<longrightarrow> batchResults st2 = fst (last pub')" by simp_all
  have a: "length pub = length (row # rows)" using len p by simp
  have b: "\<forall>j < length (row # rows). snd (pub ! j) = progress (i + j) n \<and>
                             length (fst (pub ! j)) = length results + j + 1"
  proof (intro allI impI)
    fix j assume j: "j < length (row # rows)"
    show "snd (pub ! j) = progress (i + j) n \<and> length (fst (pub ! j)) = length results + j + 1"
    proof (cases j)
      case 0
      then show ?thesis by (simp add: p results'_def)
    next
      case (Suc m)
      with j have "m < length rows" by simp
      with nth have "snd (pub' ! m) = progress (i + 1 + m) n"
        "length (fst (pub' ! m)) = length results' + m + 1" by simp_all
      with Suc show ?thesis by (simp add: p results'_def)
    qed
  qed
  have c: "batchResults st' = fst (last pub)"
  proof (cases "rows = []")
    case True
    with l' have "pub' = []" "st2 = st1" by simp_all
    then show ?thesis by (simp add: p s st1_def)
  next
    case False
    with len have "pub' \<noteq> []" by auto
    with fin False show ?thesis by (simp add: p s)
  qed
  from a b c show ?case by simp
qed

lemma map_of_fold_update:
  "map_of (fold (\<lambda>k. AList.update k (f k)) ks acc) k =
     (if k \<in> set ks then Some (f k) else map_of acc k)"
  by (induction ks arbitrary: acc) (auto simp: update_conv')

lemma map_of_spread:
  "map_of (spread target source) k =
     (case map_of source k of Some v \<Rightarrow> Some v | None \<Rightarrow> map_of target k)"
proof (cases "map_of source k")
  case None
  then have "k \<notin> set (own_keys source)" by (simp add: set_own_keys map_of_eq_None_iff)
  with None show ?thesis by (simp add: spread_def map_of_fold_update)
next
  case (Some v)
  then have "k \<in> set (own_keys source)"
    by (metis set_own_keys map_of_eq_None_iff option.distinct(1))
  with Some show ?thesis by (simp add: spread_def map_of_fold_update)
qed

lemma resultRow_columns:
  "map_of (resultRow eng i row result) k =
     (if k = ''_response'' then Some (CStr (response_text eng (data result)))
      else if k = ''_success'' then Some (CStr (if success result then ''PASS'' else ''FAIL''))
      else if k = ''_status'' then Some (CNum (status result))
      else case map_of row k of
             Some v \<Rightarrow> Some (CStr v)
           | None \<Rightarrow> if k = ''_rowIndex'' then Some (CNum (i + 1)) else None)"
  by (auto simp: resultRow_def update_conv' map_of_spread map_of_as_cells split: option.splits)

lemma batch_loop_no_exception:
  assumes "\<forall>row \<in> set rows. \<exists>opts. request_options eng cfg ep row = Inr opts"
  shows "fst (batch_loop eng fetch cfg ep n i rows results st) = None"
  using assms
proof (induction rows arbitrary: i results st)
  case Nil
  then show ?case by simp
next
  case (Cons row rows)
  then obtain opts where "request_options eng cfg ep row = Inr opts" by auto
  then have r: "executeRequest eng (fetch i) cfg ep row = Inr (settle eng (fetch i opts))"
    by (simp add: executeRequest_def bind_def)
  define results' where "results' = results @ [resultRow eng i row (settle eng (fetch i opts))]"
  define st1 where "st1 = st\<lparr>batchResults := results', batchProgress := progress i n\<rparr>"
  have "fst (batch_loop eng fetch cfg ep n (i + 1) rows results' st1) = None"
    using Cons.prems by (intro Cons.IH) simp
  then show ?case
    using r by (simp add: results'_def st1_def Let_def case_prod_unfold)
qed

lemma runBatchTest_complete:
  assumes "runBatchTest eng fetch st = (None, pub, st')"
    and "selectedEndpoint st = Some ep" and "batchData st \<noteq> []"
  shows "length (batchResults st') = length (batchData st) \<and>
         length pub = length (batchData st) \<and>
         (\<forall>j < length (batchData st). snd (pub ! j) = progress j (length (batchData st))) \<and>
         \<not> batchRunning st'"
proof -
  define st1 where "st1 = st\<lparr>batchRunning := True, batchResults := []\<rparr>"
  obtain err pub' st2 where
    l: "batch_loop eng fetch (config st) ep (length (batchData st)) 0 (batchData st) [] st1 =
          (err, pub', st2)"
    by (metis prod_cases3)
  from assms l have e: "err = None" and p: "pub = pub'" and s: "st' = st2\<lparr>batchRunning := False\<rparr>"
    by (auto simp: runBatchTest_def st1_def Let_def split: option.splits)
  from l e have "batch_loop eng fetch (config st) ep (length (batchData st)) 0 (batchData st) [] st1 =
          (None, pub', st2)" by simp
  from batch_loop_published [OF this] assms(3)
  have len: "length pub' = length (batchData st)" and
    nth: "\<forall>j < length (batchData st). snd (pub' ! j) = progress (0 + j) (length (batchData st)) \<and>
            length (fst (pub' ! j)) = length ([] :: cell obj list) + j + 1" and
    fin: "batchResults st2 = fst (last pub')" by simp_all
  from len assms(3) have ne: "pub' \<noteq> []" by auto
  then have "last pub' = pub' ! (length (batchData st) - 1)"
    using len by (simp add: last_conv_nth)
  moreover have "length (batchData st) - 1 < length (batchData st)" using assms(3) by simp
  ultimately have "length (fst (last pub')) = length (batchData st)"
    using nth assms(3) by simp
  with fin len nth show ?thesis by (simp add: p s)
qed

text \<open>
  C7. The result rows of a batch of \<open>n\<close> rows are to carry the indices \<open>1 .. n\<close>, and
  the progress after row \<open>k\<close> is to be \<open>round(100 * k / n)\<close>. The result row sets
  \<open>_rowIndex\<close> before it copies the row, so a CSV column of that name replaces
  the index: both rows of the file below carry \<open>7\<close>. The progress is computed as
  \<open>(k / n) * 100\<close> in floating point: after row 23 of 40 it is 57, not 58.
\<close>

theorem row_index_taken_from_csv_column:
  "map (\<lambda>r. map_of r ''_rowIndex'')
     (batchResults (snd (snd (runBatchTest eng (\<lambda>i opts. Rejected ''Failed to fetch'')
        (batch_state (''_rowIndex,name'' @ [CHR 0x0A] @ ''7,Ann'' @ [CHR 0x0A] @ ''7,Bob'')))))) =
     [Some (CStr ''7''), Some (CStr ''7'')] \<and>
   progress 22 40 = 57 \<and> Math_round (100 * 23 / 40) = 58"
proof -
  have "map (\<lambda>r. map_of r ''_rowIndex'')
     (batchResults (snd (snd (runBatchTest eng (\<lambda>i opts. Rejected ''Failed to fetch'')
        (batch_state (''_rowIndex,name'' @ [CHR 0x0A] @ ''7,Ann'' @ [CHR 0x0A] @ ''7,Bob'')))))) =
     [Some (CStr ''7''), Some (CStr ''7'')]"
    by code_simp
  moreover have "progress 22 40 = 57" by code_simp
  moreover have "Math_round (100 * 23 / 40) = 58" by code_simp
  ultimately show ?thesis by blast
qed

text \<open>
  C10. A CSV column named \<open>_rowIndex\<close>, \<open>_status\<close>, \<open>_success\<close> or \<open>_response\<close> is to
  be overwritten by the outcome. The last three are; \<open>_rowIndex\<close> is set before
  the row is copied, so the value of the CSV column stands in the result row
  and in the exported file.
\<close>

theorem rowIndex_column_survives:
  "resultRow eng 0 [(''_rowIndex'', ''7''), (''name'', ''Ann''), (''_status'', ''x'')]
     (network_failure ''Failed to fetch'') =
     [(''_rowIndex'', CStr ''7''), (''name'', CStr ''Ann''), (''_status'', CNum 0),
      (''_success'', CStr ''FAIL''), (''_response'', CStr ''Failed to fetch'')] \<and>
   csvContent [resultRow eng 0 [(''_rowIndex'', ''7''), (''name'', ''Ann''), (''_status'', ''x'')]
     (network_failure ''Failed to fetch'')] =
     ''_rowIndex,name,_status,_success,_response'' @ [CHR 0x0A] @ ''7,Ann,0,FAIL,Failed to fetch''"
proof -
  have "resultRow eng 0 [(''_rowIndex'', ''7''), (''name'', ''Ann''), (''_status'', ''x'')]
     (network_failure ''Failed to fetch'') =
     [(''_rowIndex'', CStr ''7''), (''name'', CStr ''Ann''), (''_status'', CNum 0),
      (''_success'', CStr ''FAIL''), (''_response'', CStr ''Failed to fetch'')]"
    by code_simp
  moreover have "csvContent [[(''_rowIndex'', CStr ''7''), (''name'', CStr ''Ann''),
      (''_status'', CNum 0), (''_success'', CStr ''FAIL''),
      (''_response'', CStr ''Failed to fetch'')]] =
     ''_rowIndex,name,_status,_success,_response'' @ [CHR 0x0A] @ ''7,Ann,0,FAIL,Failed to fetch''"
    by code_simp
  ultimately show ?thesis by simp
qed

section \<open>Properties of the spec import\<close>







































lemma import_all_or_nothing:
  "(\<exists>m. handleSpecParse eng st = st\<lparr>error := m\<rparr>) \<or>
   (\<exists>js es i. JSON_parse eng (specInput st) = Inr js \<and> build_endpoints js = Inr es \<and>
      handleSpecParse eng st =
        st\<lparr>parsedSpec := Some \<lparr>info = i, endpoints = es\<rparr>, error := [], activeTab := ''manual''\<rparr>)"
  by (auto simp: handleSpecParse_def bind_def split: sum.splits)

text \<open>
  C8, as stated, covers every document without a paths object. The code tests
  \<open>json.paths\<close> for truthiness only: the document \<open>{"paths": 5}\<close> has no paths
  object, and its import succeeds and replaces the catalog by an empty one.
\<close>

theorem truthy_paths_replaces_catalog:
  "JSON_parse example_engine paths_5_text = Inr (JObj [(''paths'', JNum 5)]) \<and>
   handleSpecParse example_engine (imported_state paths_5_text) =
     (imported_state paths_5_text)
       \<lparr>parsedSpec := Some \<lparr>info = JUndefined, endpoints = []\<rparr>, error := [],
        activeTab := ''manual''\<rparr> \<and>
   parsedSpec (handleSpecParse example_engine (imported_state paths_5_text)) \<noteq>
     parsedSpec (imported_state paths_5_text)"
proof -
  have p: "JSON_parse example_engine paths_5_text = Inr (JObj [(''paths'', JNum 5)])"
    by (simp add: example_engine_def table_parser_def paths_5_text_def)
  have b: "build_endpoints (JObj [(''paths'', JNum 5)]) = Inr []"
    by (simp add: build_endpoints_def bind_def Object_keys_def)
  have h: "handleSpecParse example_engine (imported_state paths_5_text) =
     (imported_state paths_5_text)
       \<lparr>parsedSpec := Some \<lparr>info = JUndefined, endpoints = []\<rparr>, error := [],
        activeTab := ''manual''\<rparr>"
    using p b by (simp add: handleSpecParse_def bind_def imported_state_def)
  show ?thesis using p h by (simp add: imported_state_def)
qed

text \<open>
  C8, as amended. When the text is not JSON, or parses to \<open>null\<close>, or parses to
  a value whose member \<open>paths\<close> is absent or falsy, the import changes nothing
  but the error message: the catalog, the active tab and the rest of the state
  are as before. The message is the message of the JSON parser in the first
  case, the engine's message for a member read on \<open>null\<close> in the second, and the
  fixed text of the validation in the third.
\<close>

theorem failed_import_keeps_state:
  "(JSON_parse eng (specInput st) = Inl m \<longrightarrow> handleSpecParse eng st = st\<lparr>error := m\<rparr>) \<and>
   (JSON_parse eng (specInput st) = Inr JNull \<longrightarrow>
      handleSpecParse eng st = st\<lparr>error := TypeError_message eng (Read_member ''null'' ''paths'')\<rparr>) \<and>
   (JSON_parse eng (specInput st) = Inr js \<and> get js ''paths'' = Inr v \<and> \<not> truthy v \<longrightarrow>
      handleSpecParse eng st = st\<lparr>error := missing_paths_message\<rparr>)"
  by (auto simp: handleSpecParse_def bind_def build_endpoints_def missing_paths_message_def)

theorem failed_import_keeps_state_witness:
  "JSON_parse example_engine (specInput (imported_state ''{'')) = Inl ''Unexpected token'' \<and>
   handleSpecParse example_engine (imported_state ''{'') =
     (imported_state ''{'')\<lparr>error := ''Unexpected token''\<rparr> \<and>
   JSON_parse example_engine (specInput (imported_state ''null'')) = Inr JNull \<and>
   handleSpecParse example_engine (imported_state ''null'') =
     (imported_state ''null'')\<lparr>error := ''cannot read paths of null''\<rparr> \<and>
   JSON_parse example_engine (specInput (imported_state ''{}'')) = Inr (JObj []) \<and>
   get (JObj []) ''paths'' = Inr JUndefined \<and> \<not> truthy JUndefined \<and>
   handleSpecParse example_engine (imported_state ''{}'') =
     (imported_state ''{}'')\<lparr>error := missing_paths_message\<rparr>"
proof -
  have 1: "JSON_parse example_engine (specInput (imported_state ''{'')) = Inl ''Unexpected token''"
    by (simp add: example_engine_def table_parser_def imported_state_def)
  have 2: "JSON_parse example_engine (specInput (imported_state ''{}'')) = Inr (JObj [])"
    by (simp add: example_engine_def table_parser_def imported_state_def)
  have 3: "get (JObj []) ''paths'' = Inr JUndefined" by simp
  have 4: "JSON_parse example_engine (specInput (imported_state ''null'')) = Inr JNull"
    by (simp add: example_engine_def table_parser_def imported_state_def)
  have 5: "TypeError_message example_engine (Read_member ''null'' ''paths'') =
      ''cannot read paths of null''"
    by (simp add: example_engine_def)
  from failed_import_keeps_state [of example_engine "imported_state ''{''" "''Unexpected token''"] 1
  have a: "handleSpecParse example_engine (imported_state ''{'') =
     (imported_state ''{'')\<lparr>error := ''Unexpected token''\<rparr>" by blast
  from failed_import_keeps_state [of example_engine "imported_state ''{}''" _ "JObj []" JUndefined] 2 3
  have b: "handleSpecParse example_engine (imported_state ''{}'') =
     (imported_state ''{}'')\<lparr>error := missing_paths_message\<rparr>" by simp
  from failed_import_keeps_state [of example_engine "imported_state ''null''"] 4 5
  have c: "handleSpecParse example_engine (imported_state ''null'') =
     (imported_state ''null'')\<lparr>error := ''cannot read paths of null''\<rparr>" by simp
  show ?thesis using 1 2 3 4 a b c by simp
qed

end
